theory Spec2Isabelle
  imports Main "HOL-Library.Sublist"
begin

section \<open>Python strings\<close>

text \<open>
  A Python \<open>str\<close> is modelled as a \<open>string\<close>; one \<open>char\<close> stands for one code point
  below 256, so the model covers the questions and model outputs written in Latin-1.
  The helpers below follow the built-in methods the services call: \<open>str.isspace\<close>,
  \<open>str.strip\<close>, \<open>str.rstrip\<close>, \<open>str.lower\<close>, \<open>str.startswith\<close>,
  \<open>str.endswith\<close>, the operator \<open>in\<close>, \<open>str.split\<close> with a separator and
  \<open>str.join\<close>.
\<close>

definition whitespace_chars :: "char list" where
  "whitespace_chars =
     [CHR 0x09, CHR 0x0A, CHR 0x0B, CHR 0x0C, CHR 0x0D, CHR 0x1C, CHR 0x1D, CHR 0x1E,
      CHR 0x1F, CHR 0x20, CHR 0x85, CHR 0xA0]"

definition isspace :: "char \<Rightarrow> bool" where
  "isspace c = (c \<in> set whitespace_chars)"

definition isdigit :: "char \<Rightarrow> bool" where
  "isdigit c = (c \<in> set ''0123456789'')"

definition lstrip :: "string \<Rightarrow> string" where
  "lstrip s = dropWhile isspace s"

definition rstrip :: "string \<Rightarrow> string" where
  "rstrip s = rev (dropWhile isspace (rev s))"

definition strip :: "string \<Rightarrow> string" where
  "strip s = rstrip (lstrip s)"

definition lower_char :: "char \<Rightarrow> char" where
  "lower_char c =
     (let n = (of_char c :: nat)
      in if (65 \<le> n \<and> n \<le> 90) \<or> (192 \<le> n \<and> n \<le> 222 \<and> n \<noteq> 215)
         then char_of (n + 32) else c)"

definition lower :: "string \<Rightarrow> string" where
  "lower s = map lower_char s"

definition startswith :: "string \<Rightarrow> string \<Rightarrow> bool" where
  "startswith s p = prefix p s"

definition endswith :: "string \<Rightarrow> string \<Rightarrow> bool" where
  "endswith s p = suffix p s"

text \<open>\<open>contains sub s\<close> is Python's \<open>sub in s\<close>.\<close>

fun contains :: "string \<Rightarrow> string \<Rightarrow> bool" where
  "contains sub [] = (sub = [])"
| "contains sub (c # cs) = (prefix sub (c # cs) \<or> contains sub cs)"

text \<open>
  \<open>split_str sep s\<close> is \<open>s.split(sep)\<close> for a non-empty separator: the occurrences of
  \<open>sep\<close> are found from left to right without overlap. Python raises \<open>ValueError\<close> on an
  empty separator; \<open>split_py\<close> keeps that branch.
\<close>

function split_str :: "string \<Rightarrow> string \<Rightarrow> string list" where
  "split_str sep s =
     (if sep = [] then [s]
      else if prefix sep s then [] # split_str sep (drop (length sep) s)
      else (case s of
              [] \<Rightarrow> [[]]
            | c # cs \<Rightarrow> (case split_str sep cs of
                          [] \<Rightarrow> [[c]]
                        | p # ps \<Rightarrow> (c # p) # ps)))"
  by pat_completeness auto
termination
  by (relation "measure (\<lambda>(sep, s). length s)") (auto simp: prefix_def)

declare split_str.simps [simp del]

fun join :: "string \<Rightarrow> string list \<Rightarrow> string" where
  "join sep [] = []"
| "join sep [x] = x"
| "join sep (x # y # ys) = x @ sep @ join sep (y # ys)"

section \<open>Exceptions\<close>

text \<open>
  A raised exception is a value: its class name and its message (\<open>str(e)\<close>). Only
  subclasses of \<open>Exception\<close> are modelled, which is what \<open>except Exception\<close> and the
  bare \<open>except\<close> clauses of the services catch. A call that may raise returns
  \<open>exn + 'a\<close>, with \<open>Inl\<close> for the exception.
\<close>

datatype exn = Raised (exn_class: string) (exn_message: string)

definition IndexError :: exn where
  "IndexError = Raised ''IndexError'' ''list index out of range''"

definition ValueError :: exn where
  "ValueError = Raised ''ValueError'' ''empty separator''"

definition TypeError :: exn where
  "TypeError = Raised ''TypeError'' (''object is not subscriptable'')"

definition AttributeError :: exn where
  "AttributeError = Raised ''AttributeError'' ''object has no attribute strip''"

definition bind_exn :: "exn + 'a \<Rightarrow> ('a \<Rightarrow> exn + 'b) \<Rightarrow> exn + 'b" where
  "bind_exn m f = (case m of Inl e \<Rightarrow> Inl e | Inr v \<Rightarrow> f v)"

text \<open>\<open>try_except body handler\<close> is \<open>try: body except Exception as e: handler(e)\<close>.\<close>

definition try_except :: "exn + 'a \<Rightarrow> (exn \<Rightarrow> exn + 'a) \<Rightarrow> exn + 'a" where
  "try_except body handler = (case body of Inl e \<Rightarrow> handler e | Inr v \<Rightarrow> Inr v)"

definition split_py :: "string \<Rightarrow> string \<Rightarrow> exn + string list" where
  "split_py sep s = (if sep = [] then Inl ValueError else Inr (split_str sep s))"

text \<open>\<open>get_item xs i\<close> is \<open>xs[i]\<close> for an index \<open>i \<ge> 0\<close>.\<close>

definition get_item :: "'a list \<Rightarrow> nat \<Rightarrow> exn + 'a" where
  "get_item xs i = (if i < length xs then Inr (xs ! i) else Inl IndexError)"

section \<open>Response cleaning (\<open>EnhancedLLMService._clean_sql_response\<close>)\<close>

definition fence :: string where
  "fence = [CHR 0x60, CHR 0x60, CHR 0x60]"

definition fence_sql :: string where
  "fence_sql = fence @ ''sql''"

definition newline :: string where
  "newline = [CHR 0x0A]"

text \<open>The \<open>if\<close>/\<open>elif\<close> that removes the markdown formatting.\<close>

definition remove_markdown :: "string \<Rightarrow> exn + string" where
  "remove_markdown sql =
     (if contains fence_sql sql then
        bind_exn (split_py fence_sql sql) (\<lambda>parts.
        bind_exn (get_item parts 1) (\<lambda>inner.
        bind_exn (split_py fence inner) (\<lambda>parts'.
        bind_exn (get_item parts' 0) (\<lambda>block. Inr (strip block)))))
      else if contains fence sql then
        bind_exn (split_py fence sql) (\<lambda>parts.
        bind_exn (get_item parts 1) (\<lambda>block. Inr (strip block)))
      else Inr sql)"

text \<open>The test of the loop over the lines, on a line already stripped.\<close>

definition keep_line :: "string \<Rightarrow> bool" where
  "keep_line line = (line \<noteq> [] \<and> (\<not> startswith line ''--'' \<or> startswith line ''-- ''))"

definition sql_lines :: "string \<Rightarrow> string list" where
  "sql_lines sql = filter keep_line (map strip (split_str newline sql))"

definition ensure_semicolon :: "string \<Rightarrow> string" where
  "ensure_semicolon sql = (if \<not> endswith (rstrip sql) '';'' then rstrip sql @ '';'' else sql)"

definition clean_sql_response :: "string \<Rightarrow> exn + string" where
  "clean_sql_response response =
     bind_exn (remove_markdown (strip response)) (\<lambda>sql.
       Inr (ensure_semicolon (join newline (sql_lines sql))))"

section \<open>Rule-based fallback (\<open>EnhancedLLMService._fallback_sql\<close>)\<close>

text \<open>
  \<open>re.search(r'under\s+(\d+)', s)\<close>: the leftmost position where \<open>under\<close> is followed by
  at least one whitespace character and then at least one digit; the result is group 1,
  the longest run of digits there. Whitespace and digits are disjoint classes, so the
  greedy match is the only candidate at each position.
\<close>

definition match_under :: "string \<Rightarrow> string option" where
  "match_under s =
     (if prefix ''under'' s then
        (let rest = drop 5 s;
             spaces = takeWhile isspace rest;
             digits = takeWhile isdigit (dropWhile isspace rest)
         in if spaces \<noteq> [] \<and> digits \<noteq> [] then Some digits else None)
      else None)"

fun search_under :: "string \<Rightarrow> string option" where
  "search_under [] = None"
| "search_under (c # cs) =
     (case match_under (c # cs) of Some g \<Rightarrow> Some g | None \<Rightarrow> search_under cs)"

definition drop_all_tables_sql :: string where
  "drop_all_tables_sql =
     ''-- Drop all tables (CASCADE handles dependencies)'' @ newline @
     ''    DROP TABLE IF EXISTS orders CASCADE;'' @ newline @
     ''    DROP TABLE IF EXISTS users CASCADE;'' @ newline @
     ''    DROP TABLE IF EXISTS query_history CASCADE;''"

definition specify_table_sql :: string where
  "specify_table_sql =
     ''-- Example: DROP TABLE table_name CASCADE;'' @ newline @
     ''SELECT 'Specify which table to drop' as message;''"

definition city_sql :: string where
  "city_sql = ''SELECT * FROM users WHERE city = 'New York' LIMIT 10;''"

definition amount_sql :: string where
  "amount_sql = ''SELECT * FROM orders WHERE amount > 100 ORDER BY amount DESC LIMIT 10;''"

definition count_sql :: string where
  "count_sql = ''SELECT COUNT(*) as user_count FROM users;''"

definition join_sql :: string where
  "join_sql =
     ''SELECT u.name, o.product, o.amount FROM users u JOIN orders o ON u.id = o.user_id LIMIT 10;''"

definition age_sql :: "string \<Rightarrow> string" where
  "age_sql age = ''SELECT * FROM users WHERE age < '' @ age @ '' LIMIT 10;''"

definition default_sql :: "string \<Rightarrow> string" where
  "default_sql question =
     ''-- Fallback query for: '' @ question @ newline @ ''SELECT * FROM users LIMIT 10;''"

definition fallback_sql :: "string \<Rightarrow> string" where
  "fallback_sql question =
     (let question_lower = lower question in
      if (contains ''delete'' question_lower \<or> contains ''drop'' question_lower)
         \<and> contains ''table'' question_lower then
        (if contains ''all'' question_lower then drop_all_tables_sql else specify_table_sql)
      else if contains ''users'' question_lower \<and> contains ''city'' question_lower then
        city_sql
      else if contains ''orders'' question_lower
              \<and> (contains ''amount'' question_lower \<or> contains ''price'' question_lower) then
        amount_sql
      else if contains ''count'' question_lower \<and> contains ''users'' question_lower then
        count_sql
      else if contains ''join'' question_lower
              \<or> (contains ''users'' question_lower \<and> contains ''orders'' question_lower) then
        join_sql
      else if contains ''under'' question_lower \<and> contains ''age'' question_lower then
        (case search_under question_lower of
           Some age \<Rightarrow> age_sql age
         | None \<Rightarrow> age_sql ''25'')
      else default_sql question)"

section \<open>Knowledge store\<close>

text \<open>
  Metadata values as the services build them: scalars, a sequence of scalars, or any
  other object, which is kept as its \<open>str()\<close> form. Floating-point values do not
  occur in the metadata of this program and are left out.
\<close>

datatype scalar = SStr string | SInt int | SBool bool | SNone

datatype meta_value = Scalar scalar | Seq "scalar list" | Other string

type_synonym metadata = "(string \<times> scalar) list"

record document =
  doc_content :: string
  doc_metadata :: metadata

fun str_nat :: "nat \<Rightarrow> string" where
  "str_nat n =
     (if n < 10 then [char_of (48 + n)] else str_nat (n div 10) @ [char_of (48 + n mod 10)])"

declare str_nat.simps [simp del]

definition str_int :: "int \<Rightarrow> string" where
  "str_int i = (if i < 0 then ''-'' @ str_nat (nat (- i)) else str_nat (nat i))"

fun str_scalar :: "scalar \<Rightarrow> string" where
  "str_scalar (SStr s) = s"
| "str_scalar (SInt i) = str_int i"
| "str_scalar (SBool b) = (if b then ''True'' else ''False'')"
| "str_scalar SNone = ''None''"

text \<open>
  Modelled from the spec: the Knowledge Store is a ChromaDB collection, an external
  index whose code is not part of the repository. Following sections 3 and 4.1 of the
  spec, a collection holds documents under unique ids, in insertion order; \<open>count\<close> is
  the number of documents; \<open>get\<close> returns the ids found; \<open>add\<close> rejects the whole
  batch when the index rejects one of its documents or when the batch repeats an id, and
  otherwise inserts the documents whose id is new (re-inserting an id is a no-op);
  \<open>query\<close> returns at most \<open>n_results\<close> documents by increasing distance to the
  query text. What the index rejects, when the search or the lookup fails and the
  distance itself are parameters, collected in \<open>backend\<close>.
\<close>

type_synonym collection = "(string \<times> document) list"

record backend =
  distance :: "string \<Rightarrow> string \<Rightarrow> nat"
  query_fault :: "string \<Rightarrow> exn option"
  get_fault :: "string \<Rightarrow> exn option"
  add_fault :: "string \<Rightarrow> document \<Rightarrow> exn option"

record query_result =
  documents :: "string list list option"
  metadatas :: "metadata list list option"

definition collection_count :: "collection \<Rightarrow> nat" where
  "collection_count coll = length coll"

definition collection_get :: "backend \<Rightarrow> collection \<Rightarrow> string \<Rightarrow> exn + string list" where
  "collection_get bk coll doc_id =
     (case get_fault bk doc_id of
        Some e \<Rightarrow> Inl e
      | None \<Rightarrow> Inr (filter (\<lambda>i. i = doc_id) (map fst coll)))"

fun first_fault :: "backend \<Rightarrow> (string \<times> document) list \<Rightarrow> exn option" where
  "first_fault bk [] = None"
| "first_fault bk ((i, d) # items) =
     (case add_fault bk i d of Some e \<Rightarrow> Some e | None \<Rightarrow> first_fault bk items)"

definition DuplicateIDError :: exn where
  "DuplicateIDError = Raised ''DuplicateIDError'' ''Expected IDs to be unique''"

definition collection_add ::
  "backend \<Rightarrow> (string \<times> document) list \<Rightarrow> collection \<Rightarrow> exn + collection" where
  "collection_add bk items coll =
     (case first_fault bk items of
        Some e \<Rightarrow> Inl e
      | None \<Rightarrow>
          if \<not> distinct (map fst items) then Inl DuplicateIDError
          else Inr (coll @ filter (\<lambda>(i, d). i \<notin> set (map fst coll)) items))"

definition collection_query ::
  "backend \<Rightarrow> collection \<Rightarrow> string \<Rightarrow> int \<Rightarrow> exn + query_result" where
  "collection_query bk coll query_text n_results =
     (case query_fault bk query_text of
        Some e \<Rightarrow> Inl e
      | None \<Rightarrow>
          if n_results \<le> 0 then Inl (Raised ''ValueError'' ''Number of requested results cannot be negative, or zero'')
          else
            (let top = take (nat n_results)
                         (sort_key (\<lambda>(i, d). distance bk query_text (doc_content d)) coll)
             in Inr \<lparr>documents = Some [map (\<lambda>(i, d). doc_content d) top],
                    metadatas = Some [map (\<lambda>(i, d). doc_metadata d) top]\<rparr>))"

section \<open>Context retrieval (\<open>RAGService.retrieve_context\<close>)\<close>

record context_item =
  item_content :: string
  item_metadata :: metadata

text \<open>
  The body of the \<open>try\<close> after the query: \<open>results['documents']\<close> may be \<open>None\<close> or
  empty, and so may its first entry; \<open>results['metadatas'][0]\<close> raises when
  \<open>results['metadatas']\<close> is \<open>None\<close> or empty.
\<close>

definition context_of_results :: "query_result \<Rightarrow> exn + context_item list" where
  "context_of_results results =
     (case documents results of
        None \<Rightarrow> Inr []
      | Some [] \<Rightarrow> Inr []
      | Some (docs # _) \<Rightarrow>
          if docs = [] then Inr []
          else (case metadatas results of
                  None \<Rightarrow> Inl TypeError
                | Some ms \<Rightarrow>
                    bind_exn (get_item ms 0) (\<lambda>metas.
                      Inr (map (\<lambda>(doc, metadata).
                                  \<lparr>item_content = doc, item_metadata = metadata\<rparr>)
                               (zip docs metas)))))"

definition retrieve_context ::
  "backend \<Rightarrow> collection \<Rightarrow> string \<Rightarrow> int \<Rightarrow> exn + context_item list" where
  "retrieve_context bk coll query top_k =
     try_except
       (bind_exn (collection_query bk coll query top_k) context_of_results)
       (\<lambda>e. Inr [])"

section \<open>Feedback (\<open>RAGService.add_successful_query\<close>, \<open>learn_from_query\<close>)\<close>

definition quote :: string where
  "quote = [CHR 0x27]"

text \<open>
  \<open>hash\<close> is Python's built-in hash of a \<open>str\<close>: a function of the string that is fixed
  within one process and unknown otherwise, so it is a parameter.
\<close>

definition query_id_of :: "(string \<Rightarrow> int) \<Rightarrow> string \<Rightarrow> string \<Rightarrow> string" where
  "query_id_of hash question sql = ''learned_'' @ str_int (hash (question @ sql))"

definition learned_document :: "string \<Rightarrow> string \<Rightarrow> document" where
  "learned_document question sql =
     \<lparr>doc_content = ''Question: '' @ quote @ question @ quote @ '' generates SQL: '' @ sql,
      doc_metadata = [(''type'', SStr ''learned_example''), (''success'', SBool True)]\<rparr>"

text \<open>
  The inner \<open>try\<close> returns when the id exists and swallows a failed lookup; the outer
  \<open>try\<close> swallows a failed insert. The result is the collection afterwards.
\<close>

definition add_successful_query ::
  "backend \<Rightarrow> (string \<Rightarrow> int) \<Rightarrow> string \<Rightarrow> string \<Rightarrow> collection \<Rightarrow> collection" where
  "add_successful_query bk hash question sql coll =
     (let query_id = query_id_of hash question sql;
          already = (case collection_get bk coll query_id of
                       Inl e \<Rightarrow> False
                     | Inr existing_ids \<Rightarrow> existing_ids \<noteq> [])
      in if already then coll
         else (case collection_add bk [(query_id, learned_document question sql)] coll of
                 Inl e \<Rightarrow> coll
               | Inr coll' \<Rightarrow> coll'))"

definition learn_from_query ::
  "backend \<Rightarrow> (string \<Rightarrow> int) \<Rightarrow> string \<Rightarrow> string \<Rightarrow> bool \<Rightarrow> collection \<Rightarrow> collection" where
  "learn_from_query bk hash question sql success coll =
     (if success then add_successful_query bk hash question sql coll else coll)"

section \<open>Curator (\<open>RAGService.populate_knowledge_base\<close>)\<close>

text \<open>
  The relational database is an external collaborator. \<open>database\<close> holds what it
  answers: the tables with their columns (or the exception of the inspector), whether
  the connection fails, the rows of \<open>SELECT * FROM users LIMIT 3\<close> and of the same query
  on \<open>orders\<close>, already converted by \<open>_convert_row_to_json\<close>, and \<open>json.dumps\<close> on
  such rows.
\<close>

record column =
  col_name :: string
  col_type :: string
  col_nullable :: bool

record 'row database =
  table_columns :: "exn + (string \<times> column list) list"
  connect_fault :: "exn option"
  users_rows :: "exn + 'row list"
  orders_rows :: "exn + 'row list"
  json_dumps :: "'row list \<Rightarrow> exn + string"

record knowledge_item =
  item_id :: string
  content :: string
  metadata :: "(string \<times> meta_value) list"

definition get_schema_info :: "'row database \<Rightarrow> (string \<times> column list) list" where
  "get_schema_info db = (case table_columns db of Inl e \<Rightarrow> [] | Inr info \<Rightarrow> info)"

definition get_sample_data :: "'row database \<Rightarrow> (string \<times> 'row list) list" where
  "get_sample_data db =
     (case connect_fault db of
        Some e \<Rightarrow> [(''users'', []), (''orders'', [])]
      | None \<Rightarrow>
          [(''users'', case users_rows db of Inl e \<Rightarrow> [] | Inr rows \<Rightarrow> rows),
           (''orders'', case orders_rows db of Inl e \<Rightarrow> [] | Inr rows \<Rightarrow> rows)])"

definition get_table_description :: "string \<Rightarrow> string" where
  "get_table_description table_name =
     (if table_name = ''users'' then
        ''customer information including personal details and location''
      else if table_name = ''orders'' then
        ''purchase records with product details and amounts''
      else if table_name = ''query_history'' then
        ''system log of generated SQL queries''
      else ''data records'')"

definition col_desc :: "column \<Rightarrow> string" where
  "col_desc col =
     col_name col @ '' ('' @ col_type col
     @ (if \<not> col_nullable col then '', NOT NULL'' else [])
     @ (if col_name col = ''id'' then '', PRIMARY KEY'' else [])
     @ '')''"

definition schema_item :: "string \<times> column list \<Rightarrow> knowledge_item" where
  "schema_item = (\<lambda>(table_name, columns).
     \<lparr>item_id = table_name @ ''_schema'',
      content = table_name @ '' table contains columns: ''
                @ join '', '' (map col_desc columns)
                @ ''. This table is used for storing '' @ get_table_description table_name @ ''.'',
      metadata = [(''type'', Scalar (SStr ''schema'')), (''table'', Scalar (SStr table_name))]\<rparr>)"

definition sample_items ::
  "('row list \<Rightarrow> exn + string) \<Rightarrow> string \<times> 'row list \<Rightarrow> knowledge_item list" where
  "sample_items dumps = (\<lambda>(table_name, samples).
     if samples \<noteq> [] then
       (case dumps (take 3 samples) of
          Inl e \<Rightarrow> []
        | Inr sample_str \<Rightarrow>
            [\<lparr>item_id = table_name @ ''_samples'',
              content = ''Sample data from '' @ table_name @ '' table: '' @ sample_str,
              metadata = [(''type'', Scalar (SStr ''sample_data'')),
                          (''table'', Scalar (SStr table_name))]\<rparr>])
     else [])"

definition relationship_items :: "knowledge_item list" where
  "relationship_items =
     [\<lparr>item_id = ''users_orders_relationship'',
       content = ''users and orders tables are related through user_id. orders.user_id is a foreign key referencing users.id. To get user information with their orders, use JOIN: SELECT u.name, o.product FROM users u JOIN orders o ON u.id = o.user_id'',
       metadata = [(''type'', Scalar (SStr ''relationship'')), (''tables'', Scalar (SStr ''users,orders''))]\<rparr>]"

definition query_patterns :: "knowledge_item list" where
  "query_patterns =
     [\<lparr>item_id = ''basic_select'',
       content = ''To show all records from a table: SELECT * FROM table_name LIMIT 10'',
       metadata = [(''type'', Scalar (SStr ''pattern'')), (''intent'', Scalar (SStr ''basic_select''))]\<rparr>,
      \<lparr>item_id = ''filter_by_column'',
       content = ''To filter records by a column value: SELECT * FROM table_name WHERE column_name = '' @ quote @ ''value'' @ quote,
       metadata = [(''type'', Scalar (SStr ''pattern'')), (''intent'', Scalar (SStr ''filter''))]\<rparr>,
      \<lparr>item_id = ''count_records'',
       content = ''To count records: SELECT COUNT(*) FROM table_name. To count by group: SELECT column_name, COUNT(*) FROM table_name GROUP BY column_name'',
       metadata = [(''type'', Scalar (SStr ''pattern'')), (''intent'', Scalar (SStr ''count''))]\<rparr>,
      \<lparr>item_id = ''join_tables'',
       content = ''To join users with orders: SELECT u.name, u.email, o.product, o.amount FROM users u JOIN orders o ON u.id = o.user_id'',
       metadata = [(''type'', Scalar (SStr ''pattern'')), (''intent'', Scalar (SStr ''join''))]\<rparr>,
      \<lparr>item_id = ''aggregation'',
       content = ''For aggregations like sum, average: SELECT SUM(amount) as total, AVG(amount) as average FROM orders. Group by user: SELECT u.name, SUM(o.amount) as total FROM users u JOIN orders o ON u.id = o.user_id GROUP BY u.id, u.name'',
       metadata = [(''type'', Scalar (SStr ''pattern'')), (''intent'', Scalar (SStr ''aggregation''))]\<rparr>,
      \<lparr>item_id = ''sorting'',
       content = ''To sort results: SELECT * FROM table_name ORDER BY column_name ASC/DESC. For latest records: ORDER BY date_column DESC LIMIT 10'',
       metadata = [(''type'', Scalar (SStr ''pattern'')), (''intent'', Scalar (SStr ''sorting''))]\<rparr>]"

definition examples :: "knowledge_item list" where
  "examples =
     [\<lparr>item_id = ''users_by_city'',
       content = ''To find users from a specific city: SELECT * FROM users WHERE city = '' @ quote @ ''New York'' @ quote @ ''. To find users from multiple cities: SELECT * FROM users WHERE city IN ('' @ quote @ ''New York'' @ quote @ '', '' @ quote @ ''Chicago'' @ quote @ '')'',
       metadata = [(''type'', Scalar (SStr ''example'')), (''intent'', Scalar (SStr ''location_filter''))]\<rparr>,
      \<lparr>item_id = ''orders_by_amount'',
       content = ''To find orders above certain amount: SELECT * FROM orders WHERE amount > 500. To find expensive orders with user info: SELECT u.name, o.product, o.amount FROM users u JOIN orders o ON u.id = o.user_id WHERE o.amount > 500'',
       metadata = [(''type'', Scalar (SStr ''example'')), (''intent'', Scalar (SStr ''amount_filter''))]\<rparr>,
      \<lparr>item_id = ''recent_orders'',
       content = ''To find recent orders: SELECT * FROM orders ORDER BY order_date DESC LIMIT 10. To find orders from specific date: SELECT * FROM orders WHERE order_date >= '' @ quote @ ''2024-01-01'' @ quote,
       metadata = [(''type'', Scalar (SStr ''example'')), (''intent'', Scalar (SStr ''recent_data''))]\<rparr>,
      \<lparr>item_id = ''user_order_summary'',
       content = ''To get user order summary: SELECT u.name, COUNT(o.id) as order_count, SUM(o.amount) as total_spent FROM users u LEFT JOIN orders o ON u.id = o.user_id GROUP BY u.id, u.name'',
       metadata = [(''type'', Scalar (SStr ''example'')), (''intent'', Scalar (SStr ''user_summary''))]\<rparr>,
      \<lparr>item_id = ''top_customers'',
       content = ''To find top customers by spending: SELECT u.name, SUM(o.amount) as total_spent FROM users u JOIN orders o ON u.id = o.user_id GROUP BY u.id, u.name ORDER BY total_spent DESC LIMIT 10'',
       metadata = [(''type'', Scalar (SStr ''example'')), (''intent'', Scalar (SStr ''top_customers''))]\<rparr>,
      \<lparr>item_id = ''age_filter'',
       content = ''To filter users by age: SELECT * FROM users WHERE age > 25. To find users in age range: SELECT * FROM users WHERE age BETWEEN 25 AND 50'',
       metadata = [(''type'', Scalar (SStr ''example'')), (''intent'', Scalar (SStr ''age_filter''))]\<rparr>]"

definition postgres_tips :: "knowledge_item list" where
  "postgres_tips =
     [\<lparr>item_id = ''postgres_string_matching'',
       content = ''For PostgreSQL string matching: Use LIKE for patterns (LIKE '' @ quote @ ''%pattern%'' @ quote @ ''), ILIKE for case-insensitive matching, or ~ for regex matching'',
       metadata = [(''type'', Scalar (SStr ''tip'')), (''intent'', Scalar (SStr ''string_matching''))]\<rparr>,
      \<lparr>item_id = ''postgres_date_functions'',
       content = ''PostgreSQL date functions: Use CURRENT_DATE for today, EXTRACT(YEAR FROM date_column) for year, DATE_TRUNC('' @ quote @ ''month'' @ quote @ '', date_column) for month grouping'',
       metadata = [(''type'', Scalar (SStr ''tip'')), (''intent'', Scalar (SStr ''date_functions''))]\<rparr>,
      \<lparr>item_id = ''postgres_limits'',
       content = ''Always use LIMIT in PostgreSQL for large result sets. For pagination, use LIMIT with OFFSET: SELECT * FROM table LIMIT 10 OFFSET 20'',
       metadata = [(''type'', Scalar (SStr ''tip'')), (''intent'', Scalar (SStr ''pagination''))]\<rparr>]"

definition knowledge_items :: "'row database \<Rightarrow> knowledge_item list" where
  "knowledge_items db =
     map schema_item (get_schema_info db)
     @ concat (map (sample_items (json_dumps db)) (get_sample_data db))
     @ relationship_items @ query_patterns @ examples @ postgres_tips"

text \<open>The metadata validation: scalars stay, a sequence is comma-joined, the rest is \<open>str(value)\<close>.\<close>

fun clean_value :: "meta_value \<Rightarrow> scalar" where
  "clean_value (Scalar v) = v"
| "clean_value (Seq vs) = SStr (join '','' (map str_scalar vs))"
| "clean_value (Other s) = SStr s"

definition clean_metadata :: "(string \<times> meta_value) list \<Rightarrow> metadata" where
  "clean_metadata m = map (\<lambda>(key, v). (key, clean_value v)) m"

definition to_document :: "knowledge_item \<Rightarrow> string \<times> document" where
  "to_document item =
     (item_id item, \<lparr>doc_content = content item, doc_metadata = clean_metadata (metadata item)\<rparr>)"

text \<open>The loop of the \<open>except\<close> branch: one insert per item, a failed one is skipped.\<close>

fun add_individually :: "backend \<Rightarrow> knowledge_item list \<Rightarrow> collection \<Rightarrow> collection" where
  "add_individually bk [] coll = coll"
| "add_individually bk (item # items) coll =
     (case collection_add bk [to_document item] coll of
        Inl e \<Rightarrow> add_individually bk items coll
      | Inr coll' \<Rightarrow> add_individually bk items coll')"

definition populate_knowledge_base ::
  "backend \<Rightarrow> 'row database \<Rightarrow> collection \<Rightarrow> collection" where
  "populate_knowledge_base bk db coll =
     (if collection_count coll > 0 then coll
      else
        (let items = knowledge_items db
         in case collection_add bk (map to_document items) coll of
              Inr coll' \<Rightarrow> coll'
            | Inl e \<Rightarrow> add_individually bk items coll))"

section \<open>Generation (\<open>EnhancedLLMService.generate_sql\<close>)\<close>

text \<open>
  The content of a model response is a \<open>str\<close>, or a list of parts, on which
  \<open>_clean_sql_response\<close> raises at \<open>response.strip()\<close>. The model is a function from the
  prompt to an exception or a response content; \<open>None\<close> is the unconfigured model.
\<close>

datatype response_content = Text string | Parts "string list"

type_synonym llm = "string \<Rightarrow> exn + response_content"

definition clean_content :: "response_content \<Rightarrow> exn + string" where
  "clean_content c = (case c of Text response \<Rightarrow> clean_sql_response response
                              | Parts ps \<Rightarrow> Inl AttributeError)"

definition build_rag_prompt :: "string \<Rightarrow> context_item list \<Rightarrow> string" where
  "build_rag_prompt question context =
     (let context_text = join newline (map (\<lambda>item. ''- '' @ item_content item) context)
      in ''You are a PostgreSQL expert. Generate accurate SQL queries based on the provided database knowledge.''
         @ newline @ newline
         @ ''RELEVANT DATABASE KNOWLEDGE:'' @ newline
         @ context_text @ newline @ newline
         @ ''IMPORTANT RULES:'' @ newline
         @ ''1. Return ONLY the SQL query, no explanations or markdown'' @ newline
         @ ''2. Use proper PostgreSQL syntax'' @ newline
         @ ''3. Include appropriate JOINs when querying multiple tables'' @ newline
         @ ''4. Add LIMIT clause for SELECT * queries (typically LIMIT 10)'' @ newline
         @ ''5. Use table aliases for better readability'' @ newline
         @ ''6. For aggregations, use proper GROUP BY clauses'' @ newline
         @ ''7. Use single quotes for string literals'' @ newline
         @ ''8. End query with semicolon'' @ newline @ newline
         @ ''USER QUESTION: '' @ question @ newline @ newline
         @ ''SQL QUERY:'')"

definition no_api_key_sql :: "string \<Rightarrow> string" where
  "no_api_key_sql question =
     ''-- No API key configured'' @ newline
     @ ''-- Generated from: '' @ question @ newline
     @ ''SELECT * FROM users LIMIT 5;''"

text \<open>
  The body of the \<open>try\<close>. The result is the outcome together with the prompts passed to
  \<open>llm.invoke\<close>, in order.
\<close>

definition generate_sql_body ::
  "llm option \<Rightarrow> backend \<Rightarrow> collection \<Rightarrow> string \<Rightarrow> (exn + string) \<times> string list" where
  "generate_sql_body the_llm bk coll question =
     (case the_llm of
        None \<Rightarrow> (Inr (no_api_key_sql question), [])
      | Some invoke \<Rightarrow>
          (case retrieve_context bk coll question 3 of
             Inl e \<Rightarrow> (Inl e, [])
           | Inr context \<Rightarrow>
               (let prompt = build_rag_prompt question context
                in (bind_exn (invoke prompt) clean_content, [prompt]))))"

definition generate_sql ::
  "llm option \<Rightarrow> backend \<Rightarrow> collection \<Rightarrow> string \<Rightarrow> string \<Rightarrow> (exn + string) \<times> string list" where
  "generate_sql the_llm bk coll question db_uri =
     (case generate_sql_body the_llm bk coll question of
        (outcome, invoked) \<Rightarrow>
          (try_except outcome (\<lambda>e. Inr (fallback_sql question)), invoked))"

section \<open>Endpoint (\<open>generate_sql_endpoint\<close>)\<close>

text \<open>
  The endpoint calls \<open>generate_sql\<close>, saves the query history (\<open>save_fault\<close> is the
  exception of \<open>db.add\<close>/\<open>db.commit\<close>, if any) and answers with status \<open>success\<close>; any
  exception gives status \<open>error\<close> with an empty \<open>sql\<close>. The fields of
  \<open>QueryResponse\<close> carry the prefix \<open>response_\<close>.
\<close>

record query_response =
  response_sql :: string
  response_status :: string
  response_error :: "string option"

definition generate_sql_endpoint ::
  "llm option \<Rightarrow> backend \<Rightarrow> collection \<Rightarrow> string \<Rightarrow> string \<Rightarrow> exn option \<Rightarrow> query_response" where
  "generate_sql_endpoint the_llm bk coll natural_query db_uri save_fault =
     (case bind_exn (fst (generate_sql the_llm bk coll natural_query db_uri))
             (\<lambda>generated. case save_fault of Some e \<Rightarrow> Inl e | None \<Rightarrow> Inr generated) of
        Inr generated \<Rightarrow>
          \<lparr>response_sql = generated, response_status = ''success'', response_error = None\<rparr>
      | Inl e \<Rightarrow>
          \<lparr>response_sql = [], response_status = ''error'',
           response_error = Some (exn_message e)\<rparr>)"

section \<open>Predicates of the specification\<close>


text \<open>
  The invariant of a successful \<open>GenerationResult\<close>: the statement is non-empty and
  ends with \<open>;\<close> once trailing whitespace is ignored.
\<close>

definition terminated :: "string \<Rightarrow> bool" where
  "terminated s = (s \<noteq> [] \<and> endswith (rstrip s) '';'')"




text \<open>The number of documents stored under an id.\<close>

definition count_id :: "collection \<Rightarrow> string \<Rightarrow> nat" where
  "count_id coll doc_id = length (filter (\<lambda>i. i = doc_id) (map fst coll))"

text \<open>A backend that never fails, with a constant distance.\<close>

definition sound_backend :: backend where
  "sound_backend =
     \<lparr>distance = (\<lambda>query_text doc. 0), query_fault = (\<lambda>query_text. None),
      get_fault = (\<lambda>doc_id. None), add_fault = (\<lambda>doc_id doc. None)\<rparr>"

text \<open>A backend whose search is unreachable.\<close>

definition unreachable_backend :: backend where
  "unreachable_backend =
     \<lparr>distance = (\<lambda>query_text doc. 0),
      query_fault = (\<lambda>query_text. Some (Raised ''ConnectionError'' ''backend unreachable'')),
      get_fault = (\<lambda>doc_id. None), add_fault = (\<lambda>doc_id doc. None)\<rparr>"



definition fenced_llm :: llm where
  "fenced_llm prompt = Inr (Text (fence_sql @ newline @ ''SELECT 1'' @ newline @ fence))"

text \<open>A database with one table, one sampled row of \<open>users\<close> and no table \<open>orders\<close>.\<close>

definition sample_database :: "string database" where
  "sample_database =
     \<lparr>table_columns =
        Inr [(''users'', [\<lparr>col_name = ''id'', col_type = ''INTEGER'', col_nullable = False\<rparr>])],
      connect_fault = None,
      users_rows = Inr [''{}''],
      orders_rows = Inl (Raised ''ProgrammingError'' ''relation does not exist''),
      json_dumps = (\<lambda>rows. Inr (''['' @ join '', '' rows @ '']''))\<rparr>"

text \<open>
  The lines that cleaning produces: non-empty, stripped, without a line break, kept by
  the comment test and without a fence.
\<close>

definition clean_line :: "string \<Rightarrow> bool" where
  "clean_line l =
     (l \<noteq> [] \<and> strip l = l \<and> CHR 0x0A \<notin> set l \<and> keep_line l \<and> \<not> contains fence l)"

section \<open>Strings: splitting, joining, stripping\<close>

lemma contains_sublist: "contains sub s \<longleftrightarrow> sublist sub s"
  by (induction s) (auto simp: sublist_Cons_right)

lemma split_str_Nil: "sep \<noteq> [] \<Longrightarrow> split_str sep [] = [[]]"
  by (simp add: split_str.simps)

lemma split_str_prefix:
  "sep \<noteq> [] \<Longrightarrow> prefix sep s \<Longrightarrow> split_str sep s = [] # split_str sep (drop (length sep) s)"
  by (subst split_str.simps) simp

lemma split_str_not_Nil: "split_str sep s \<noteq> []"
  by (induction sep s rule: split_str.induct) (subst split_str.simps, auto split: list.splits)

lemma split_str_Cons:
  "sep \<noteq> [] \<Longrightarrow> \<not> prefix sep (c # cs) \<Longrightarrow>
   split_str sep (c # cs) = (c # hd (split_str sep cs)) # tl (split_str sep cs)"
  using split_str_not_Nil [of sep cs]
  by (subst split_str.simps) (auto split: list.splits)

lemma join_Cons: "ls \<noteq> [] \<Longrightarrow> join sep (l # ls) = l @ sep @ join sep ls"
  by (cases ls) auto

lemma join_split_str: "sep \<noteq> [] \<Longrightarrow> join sep (split_str sep s) = s"
proof (induction sep s rule: split_str.induct)
  case (1 sep s)
  show ?case
  proof (cases "prefix sep s")
    case True
    then obtain r where r: "s = sep @ r" by (auto simp: prefix_def)
    from "1.IH"(1) [OF "1.prems" True "1.prems"] r
    have "join sep (split_str sep r) = r" by simp
    with "1.prems" r show ?thesis
      by (simp add: split_str_prefix join_Cons split_str_not_Nil)
  next
    case False
    show ?thesis
    proof (cases s)
      case Nil
      with "1.prems" show ?thesis by (simp add: split_str_Nil)
    next
      case (Cons c cs)
      from "1.IH"(2) [OF "1.prems" False Cons "1.prems"]
      have ih: "join sep (split_str sep cs) = cs" .
      obtain p ps where sp: "split_str sep cs = p # ps"
        using split_str_not_Nil [of sep cs] by (cases "split_str sep cs") auto
      with ih have "join sep ((c # p) # ps) = c # cs"
        by (cases ps) auto
      with Cons False "1.prems" sp show ?thesis by (simp add: split_str_Cons)
    qed
  qed
qed

lemma hd_split_str_prefix: "sep \<noteq> [] \<Longrightarrow> prefix (hd (split_str sep s)) s"
proof (induction sep s rule: split_str.induct)
  case (1 sep s)
  show ?case
  proof (cases "prefix sep s")
    case True
    with "1.prems" show ?thesis by (simp add: split_str_prefix)
  next
    case False
    show ?thesis
    proof (cases s)
      case Nil
      with "1.prems" show ?thesis by (simp add: split_str_Nil)
    next
      case (Cons c cs)
      from "1.IH"(2) [OF "1.prems" False Cons "1.prems"]
      have "prefix (hd (split_str sep cs)) cs" .
      with "1.prems" False Cons show ?thesis by (simp add: split_str_Cons)
    qed
  qed
qed

lemma split_str_parts_free:
  "sep \<noteq> [] \<Longrightarrow> p \<in> set (split_str sep s) \<Longrightarrow> \<not> contains sep p"
proof (induction sep s arbitrary: p rule: split_str.induct)
  case (1 sep s)
  show ?case
  proof (cases "prefix sep s")
    case True
    from "1.prems" True have "p = [] \<or> p \<in> set (split_str sep (drop (length sep) s))"
      by (simp add: split_str_prefix)
    then show ?thesis
    proof
      assume "p = []"
      with "1.prems"(1) show ?thesis by simp
    next
      assume "p \<in> set (split_str sep (drop (length sep) s))"
      then show ?thesis by (rule "1.IH"(1) [OF "1.prems"(1) True "1.prems"(1)])
    qed
  next
    case False
    show ?thesis
    proof (cases s)
      case Nil
      with "1.prems" show ?thesis by (simp add: split_str_Nil)
    next
      case (Cons c cs)
      have ne: "split_str sep cs \<noteq> []" by (rule split_str_not_Nil)
      have ih: "\<And>q. q \<in> set (split_str sep cs) \<Longrightarrow> \<not> contains sep q"
        using "1.IH"(2) [OF "1.prems"(1) False Cons "1.prems"(1)] .
      from "1.prems" Cons False
      have "p = c # hd (split_str sep cs) \<or> p \<in> set (tl (split_str sep cs))"
        by (simp add: split_str_Cons)
      then show ?thesis
      proof
        assume p: "p = c # hd (split_str sep cs)"
        have "prefix (hd (split_str sep cs)) cs" using "1.prems"(1) by (rule hd_split_str_prefix)
        then have "prefix p s" using p Cons by simp
        then have "\<not> prefix sep p" using False by (meson prefix_order.trans)
        moreover have "\<not> contains sep (hd (split_str sep cs))" using ih ne by simp
        ultimately show ?thesis using p by simp
      next
        assume "p \<in> set (tl (split_str sep cs))"
        then have "p \<in> set (split_str sep cs)" using ne by (meson list.set_sel(2))
        then show ?thesis by (rule ih)
      qed
    qed
  qed
qed

lemma split_str_no_sep: "sep \<noteq> [] \<Longrightarrow> \<not> contains sep s \<Longrightarrow> split_str sep s = [s]"
proof (induction s)
  case Nil
  then show ?case by (simp add: split_str_Nil)
next
  case (Cons c cs)
  then show ?case by (simp add: split_str_Cons)
qed

lemma split_str_length2: "sep \<noteq> [] \<Longrightarrow> contains sep s \<Longrightarrow> 2 \<le> length (split_str sep s)"
proof (induction s)
  case Nil
  then show ?case by simp
next
  case (Cons c cs)
  show ?case
  proof (cases "prefix sep (c # cs)")
    case True
    then show ?thesis using Cons(2) split_str_not_Nil [of sep "drop (length sep) (c # cs)"]
      by (simp add: split_str_prefix Suc_le_eq)
  next
    case False
    with Cons have "2 \<le> length (split_str sep cs)" by simp
    with False Cons(2) show ?thesis by (simp add: split_str_Cons)
  qed
qed

lemma fence_not_Nil: "fence \<noteq> []" "fence_sql \<noteq> []" "newline \<noteq> []"
  by (simp_all add: fence_def fence_sql_def newline_def)

lemma sublist_trans: "sublist xs ys \<Longrightarrow> sublist ys zs \<Longrightarrow> sublist xs zs"
  unfolding sublist_def by (metis append.assoc)

lemma contains_fence_sql_fence: "contains fence_sql s \<Longrightarrow> contains fence s"
  unfolding contains_sublist fence_sql_def
  by (meson sublist_append_rightI sublist_trans)

lemma sublist_lstrip: "sublist (lstrip s) s"
  unfolding lstrip_def by (metis suffix_dropWhile suffix_imp_sublist)

lemma prefix_rstrip: "prefix (rstrip s) s"
  unfolding rstrip_def by (metis suffix_dropWhile suffix_to_prefix rev_rev_ident)

lemma sublist_rstrip: "sublist (rstrip s) s"
  by (simp add: prefix_rstrip)

lemma sublist_strip: "sublist (strip s) s"
  unfolding strip_def by (meson sublist_lstrip sublist_rstrip sublist_trans)

lemma contains_strip: "contains sub (strip s) \<Longrightarrow> contains sub s"
  unfolding contains_sublist by (meson sublist_strip sublist_trans)

lemma remove_markdown_result:
  "\<exists>sql'. remove_markdown sql = Inr sql' \<and> \<not> contains fence sql'"
proof (cases "contains fence_sql sql")
  case True
  then have len: "1 < length (split_str fence_sql sql)"
    using split_str_length2 [of fence_sql sql] fence_not_Nil by simp
  define inner where "inner = split_str fence_sql sql ! 1"
  have ne: "split_str fence inner \<noteq> []" by (rule split_str_not_Nil)
  then have "hd (split_str fence inner) \<in> set (split_str fence inner)" by simp
  then have free: "\<not> contains fence (hd (split_str fence inner))"
    using split_str_parts_free fence_not_Nil by blast
  have "remove_markdown sql = Inr (strip (hd (split_str fence inner)))"
    using True len ne fence_not_Nil
    by (simp add: remove_markdown_def split_py_def get_item_def bind_exn_def inner_def hd_conv_nth)
  with free show ?thesis using contains_strip by auto
next
  case nosql: False
  show ?thesis
  proof (cases "contains fence sql")
    case True
    then have len: "1 < length (split_str fence sql)"
      using split_str_length2 [of fence sql] fence_not_Nil by simp
    then have "split_str fence sql ! 1 \<in> set (split_str fence sql)" by simp
    then have free: "\<not> contains fence (split_str fence sql ! 1)"
      using split_str_parts_free fence_not_Nil by blast
    have "remove_markdown sql = Inr (strip (split_str fence sql ! 1))"
      using True nosql len fence_not_Nil
      by (simp add: remove_markdown_def split_py_def get_item_def bind_exn_def)
    with free show ?thesis using contains_strip by auto
  next
    case False
    with nosql show ?thesis by (simp add: remove_markdown_def)
  qed
qed

lemma rstrip_snoc: "\<not> isspace c \<Longrightarrow> rstrip (s @ [c]) = s @ [c]"
  by (simp add: rstrip_def)

lemma not_isspace_semicolon: "\<not> isspace CHR '';''"
  by (simp add: isspace_def whitespace_chars_def)

lemma ensure_semicolon_terminated:
  "ensure_semicolon s \<noteq> [] \<and> endswith (rstrip (ensure_semicolon s)) '';''"
proof (cases "endswith (rstrip s) '';''")
  case True
  then have "rstrip s \<noteq> []" by (auto simp: endswith_def)
  then have "s \<noteq> []" by (auto simp: rstrip_def)
  with True show ?thesis by (simp add: ensure_semicolon_def)
next
  case False
  then show ?thesis
    using rstrip_snoc [OF not_isspace_semicolon, of "rstrip s"]
    by (simp add: ensure_semicolon_def endswith_def)
qed

lemma clean_sql_response_total:
  "\<exists>sql. clean_sql_response response = Inr sql \<and> sql \<noteq> [] \<and> endswith (rstrip sql) '';''"
proof -
  obtain sql' where "remove_markdown (strip response) = Inr sql'"
    using remove_markdown_result by blast
  then show ?thesis
    using ensure_semicolon_terminated by (simp add: clean_sql_response_def bind_exn_def)
qed

section \<open>The fallback rules\<close>











section \<open>Occurrences of a separator\<close>

lemma not_contains_free: "sep \<noteq> [] \<Longrightarrow> hd sep \<notin> set s \<Longrightarrow> \<not> contains sep s"
  unfolding contains_sublist using set_mono_sublist [of sep s] by (cases sep) auto

lemma contains_append_left_free:
  "sep \<noteq> [] \<Longrightarrow> hd sep \<notin> set a \<Longrightarrow> contains sep (a @ r) = contains sep r"
  by (induction a) (auto simp: prefix_Cons)

lemma contains_append_right_free:
  assumes "sep \<noteq> []" "last sep \<notin> set b"
  shows "contains sep (q @ b) = contains sep q"
proof -
  have "contains (rev sep) (rev b @ rev q) = contains (rev sep) (rev q)"
    using assms by (intro contains_append_left_free) (simp_all add: hd_rev)
  then show ?thesis
    unfolding contains_sublist by (metis rev_append sublist_rev)
qed

lemma contains_append_sep_char:
  assumes "sep \<noteq> []" "c \<notin> set sep"
  shows "contains sep (a @ c # b) \<longleftrightarrow> contains sep a \<or> contains sep b"
proof -
  have "\<not> prefix sep (c # b)" using assms by (cases sep) auto
  moreover have "\<And>x1 x2. sep = x1 @ x2 \<Longrightarrow> prefix x2 (c # b) \<Longrightarrow> x2 = []"
    using assms by (auto simp: prefix_Cons)
  ultimately show ?thesis
    unfolding contains_sublist sublist_append sublist_Cons_right
    by (metis append_Nil2 suffix_imp_sublist prefix_order.refl Nil_prefix suffix_order.refl append.right_neutral)
qed

lemma contains_join:
  assumes "sep \<noteq> []" "c \<notin> set sep"
  shows "contains sep (join [c] ls) \<longleftrightarrow> (\<exists>l \<in> set ls. contains sep l)"
  using assms
  by (induction "[c]" ls rule: join.induct) (auto simp: contains_append_sep_char)

section \<open>Cleaning removes every fence\<close>

lemma fence_chars: "hd fence = CHR 0x60" "last fence = CHR 0x60" "set fence = {CHR 0x60}"
  by (simp_all add: fence_def)

lemma backtick_free_no_fence: "CHR 0x60 \<notin> set s \<Longrightarrow> \<not> contains fence s"
  by (rule not_contains_free) (simp_all add: fence_not_Nil fence_chars)

lemma contains_fence_lines:
  "contains fence (join newline ls) \<longleftrightarrow> (\<exists>l \<in> set ls. contains fence l)"
  unfolding newline_def by (rule contains_join) (simp_all add: fence_def)

lemma sql_lines_fence_free:
  assumes "\<not> contains fence s"
  shows "\<not> contains fence (join newline (sql_lines s))"
proof -
  have "\<not> contains fence (join newline (split_str newline s))"
    using assms by (simp add: join_split_str fence_not_Nil)
  then have "\<forall>l \<in> set (split_str newline s). \<not> contains fence l"
    by (simp add: contains_fence_lines)
  then have "\<forall>l \<in> set (sql_lines s). \<not> contains fence l"
    using contains_strip by (auto simp: sql_lines_def)
  then show ?thesis by (simp add: contains_fence_lines)
qed

lemma ensure_semicolon_fence_free:
  assumes "\<not> contains fence s"
  shows "\<not> contains fence (ensure_semicolon s)"
proof -
  have "\<not> contains fence (rstrip s)"
    using assms sublist_rstrip [of s] sublist_trans unfolding contains_sublist by blast
  then have "\<not> contains fence (rstrip s @ '';'')"
    by (subst contains_append_right_free) (simp_all add: fence_not_Nil fence_chars)
  with assms show ?thesis by (simp add: ensure_semicolon_def)
qed

lemma clean_sql_response_fence_free:
  "clean_sql_response response = Inr s \<Longrightarrow> \<not> contains fence s"
proof -
  assume a: "clean_sql_response response = Inr s"
  obtain s' where s': "remove_markdown (strip response) = Inr s'" "\<not> contains fence s'"
    using remove_markdown_result by blast
  with a have "s = ensure_semicolon (join newline (sql_lines s'))"
    by (simp add: clean_sql_response_def bind_exn_def)
  with s' show ?thesis
    using ensure_semicolon_fence_free sql_lines_fence_free by simp
qed

section \<open>Fences in the fallback statements\<close>

lemma match_under_digits: "match_under s = Some g \<Longrightarrow> \<forall>c \<in> set g. isdigit c"
  by (auto simp: match_under_def Let_def split: if_splits dest: set_takeWhileD)

lemma search_under_digits: "search_under s = Some g \<Longrightarrow> \<forall>c \<in> set g. isdigit c"
  by (induction s) (auto split: option.splits dest: match_under_digits)

lemma wrap_fence:
  assumes "CHR 0x60 \<notin> set a" "CHR 0x60 \<notin> set b"
  shows "contains fence (a @ q @ b) = contains fence q"
proof -
  have "contains fence (a @ q @ b) = contains fence (q @ b)"
    using assms by (intro contains_append_left_free) (simp_all add: fence_not_Nil fence_chars)
  also have "\<dots> = contains fence q"
    using assms by (intro contains_append_right_free) (simp_all add: fence_not_Nil fence_chars)
  finally show ?thesis .
qed

lemma isdigit_not_backtick: "isdigit c \<Longrightarrow> c \<noteq> CHR 0x60"
  by (auto simp: isdigit_def)

lemma age_sql_fence_free:
  assumes "\<forall>c \<in> set g. isdigit c"
  shows "\<not> contains fence (age_sql g)"
proof -
  have "CHR 0x60 \<notin> set g" using assms isdigit_not_backtick by blast
  then have "CHR 0x60 \<notin> set (age_sql g)" by (simp add: age_sql_def)
  then show ?thesis by (rule backtick_free_no_fence)
qed

lemma default_sql_fence: "contains fence (default_sql q) = contains fence q"
  unfolding default_sql_def newline_def by (rule wrap_fence) simp_all

lemma no_api_key_sql_fence: "contains fence (no_api_key_sql q) = contains fence q"
proof -
  have "no_api_key_sql q =
      (''-- No API key configured'' @ newline @ ''-- Generated from: '') @ q
       @ (newline @ ''SELECT * FROM users LIMIT 5;'')"
    by (simp add: no_api_key_sql_def)
  then show ?thesis
    by (simp only: newline_def) (rule wrap_fence; simp)
qed

lemma drop_all_fence_free: "\<not> contains fence drop_all_tables_sql"
  by (rule backtick_free_no_fence) (simp add: drop_all_tables_sql_def newline_def)

lemma specify_fence_free: "\<not> contains fence specify_table_sql"
  by (rule backtick_free_no_fence) (simp add: specify_table_sql_def newline_def)

lemma city_fence_free: "\<not> contains fence city_sql"
  by (rule backtick_free_no_fence) (simp add: city_sql_def)

lemma amount_fence_free: "\<not> contains fence amount_sql"
  by (rule backtick_free_no_fence) (simp add: amount_sql_def)

lemma count_fence_free: "\<not> contains fence count_sql"
  by (rule backtick_free_no_fence) (simp add: count_sql_def)

lemma join_fence_free: "\<not> contains fence join_sql"
  by (rule backtick_free_no_fence) (simp add: join_sql_def)

lemma age_branch_fence_free:
  "\<not> contains fence (case search_under s of Some age \<Rightarrow> age_sql age | None \<Rightarrow> age_sql ''25'')"
proof (cases "search_under s")
  case None
  have "\<forall>c \<in> set ''25''. isdigit c" by (simp add: isdigit_def)
  then have "\<not> contains fence (age_sql ''25'')" by (rule age_sql_fence_free)
  with None show ?thesis by simp
next
  case (Some g)
  then have "\<forall>c \<in> set g. isdigit c" by (rule search_under_digits)
  then have "\<not> contains fence (age_sql g)" by (rule age_sql_fence_free)
  with Some show ?thesis by simp
qed

lemma fallback_sql_fence_free:
  assumes "\<not> contains fence question"
  shows "\<not> contains fence (fallback_sql question)"
  unfolding fallback_sql_def Let_def
  using assms age_branch_fence_free [of "lower question"] drop_all_fence_free
    specify_fence_free city_fence_free amount_fence_free count_fence_free join_fence_free
  by (simp add: default_sql_fence)

section \<open>Terminated statements\<close>

lemma terminated_snoc: "terminated (a @ '';'')"
  using rstrip_snoc [OF not_isspace_semicolon, of a]
  by (simp add: terminated_def endswith_def suffix_def)

lemma terminated_last: "s \<noteq> [] \<Longrightarrow> last s = CHR '';'' \<Longrightarrow> terminated s"
  using terminated_snoc [of "butlast s"] append_butlast_last_id [of s] by metis

lemma canned_terminated:
  "terminated drop_all_tables_sql" "terminated specify_table_sql" "terminated city_sql"
  "terminated amount_sql" "terminated count_sql" "terminated join_sql"
  by (rule terminated_last;
      simp add: drop_all_tables_sql_def specify_table_sql_def city_sql_def amount_sql_def
        count_sql_def join_sql_def newline_def)+

lemma age_sql_terminated: "terminated (age_sql g)"
  by (rule terminated_last) (simp_all add: age_sql_def)

lemma default_sql_terminated: "terminated (default_sql q)"
  by (rule terminated_last) (simp_all add: default_sql_def)

lemma no_api_key_sql_terminated: "terminated (no_api_key_sql q)"
  by (rule terminated_last) (simp_all add: no_api_key_sql_def)

lemma fallback_sql_terminated: "terminated (fallback_sql question)"
  unfolding fallback_sql_def Let_def
  using canned_terminated age_sql_terminated default_sql_terminated
  by (simp split: option.splits)

section \<open>Generation\<close>

lemma retrieve_context_total: "\<exists>ctx. retrieve_context bk coll q k = Inr ctx"
  by (simp add: retrieve_context_def try_except_def split: sum.splits)

lemma generate_sql_outcome:
  "fst (generate_sql l bk coll q uri) =
     try_except (fst (generate_sql_body l bk coll q)) (\<lambda>e. Inr (fallback_sql q))"
  by (simp add: generate_sql_def split: prod.splits)

lemma generate_sql_body_None: "generate_sql_body None bk coll q = (Inr (no_api_key_sql q), [])"
  by (simp add: generate_sql_body_def)

lemma generate_sql_body_Some:
  "\<exists>ctx. retrieve_context bk coll q 3 = Inr ctx \<and>
     generate_sql_body (Some invoke) bk coll q =
       (bind_exn (invoke (build_rag_prompt q ctx)) clean_content, [build_rag_prompt q ctx])"
  using retrieve_context_total [of bk coll q 3]
  by (auto simp: generate_sql_body_def Let_def)

lemma clean_content_result:
  assumes "clean_content c = Inr s"
  shows "terminated s \<and> \<not> contains fence s"
proof (cases c)
  case (Text r)
  with assms have r: "clean_sql_response r = Inr s" by (simp add: clean_content_def)
  then have "terminated s"
    using clean_sql_response_total [of r] by (auto simp: terminated_def)
  with r show ?thesis using clean_sql_response_fence_free by blast
next
  case (Parts ps)
  with assms show ?thesis by (simp add: clean_content_def)
qed

lemma generate_sql_body_model_path:
  assumes "l \<noteq> None" "fst (generate_sql_body l bk coll q) = Inr s"
  shows "terminated s \<and> \<not> contains fence s"
proof -
  from assms(1) obtain invoke where l: "l = Some invoke" by auto
  obtain ctx where "generate_sql_body (Some invoke) bk coll q =
       (bind_exn (invoke (build_rag_prompt q ctx)) clean_content, [build_rag_prompt q ctx])"
    using generate_sql_body_Some by blast
  with assms(2) l have "bind_exn (invoke (build_rag_prompt q ctx)) clean_content = Inr s"
    by simp
  then obtain c where "clean_content c = Inr s"
    by (auto simp: bind_exn_def split: sum.splits)
  then show ?thesis by (rule clean_content_result)
qed

lemma generate_sql_result:
  "\<exists>s. fst (generate_sql l bk coll q uri) = Inr s \<and> terminated s
       \<and> (\<not> contains fence q \<longrightarrow> \<not> contains fence s)
       \<and> (l \<noteq> None \<and> fst (generate_sql_body l bk coll q) = Inr s \<longrightarrow> \<not> contains fence s)"
proof (cases "fst (generate_sql_body l bk coll q)")
  case (Inl e)
  then have "fst (generate_sql l bk coll q uri) = Inr (fallback_sql q)"
    by (simp add: generate_sql_outcome try_except_def)
  with Inl show ?thesis
    using fallback_sql_terminated fallback_sql_fence_free by auto
next
  case (Inr s)
  then have g: "fst (generate_sql l bk coll q uri) = Inr s"
    by (simp add: generate_sql_outcome try_except_def)
  show ?thesis
  proof (cases l)
    case None
    with Inr have "s = no_api_key_sql q" by (simp add: generate_sql_body_None)
    with g None show ?thesis
      using no_api_key_sql_terminated by (auto simp: no_api_key_sql_fence)
  next
    case (Some invoke)
    then have "terminated s \<and> \<not> contains fence s"
      using generate_sql_body_model_path [of l bk coll q s] Inr by simp
    with g show ?thesis by auto
  qed
qed

lemma endpoint_success:
  "response_status (generate_sql_endpoint l bk coll q uri save_fault) = ''success'' \<Longrightarrow>
   fst (generate_sql l bk coll q uri) =
     Inr (response_sql (generate_sql_endpoint l bk coll q uri save_fault))"
  by (auto simp: generate_sql_endpoint_def bind_exn_def split: sum.splits option.splits)

section \<open>Context retrieval never raises\<close>

lemma clean_fenced_select:
  "clean_sql_response (fence_sql @ newline @ ''SELECT 1'' @ newline @ fence) = Inr ''SELECT 1;''"
  by code_simp

lemma retrieve_context_empty: "retrieve_context bk [] q k = Inr []"
  by (simp add: retrieve_context_def try_except_def bind_exn_def collection_query_def
      context_of_results_def Let_def split: option.splits sum.splits)

lemma retrieve_context_backend_error:
  "collection_query bk coll q k = Inl e \<Longrightarrow> retrieve_context bk coll q k = Inr []"
  by (simp add: retrieve_context_def try_except_def bind_exn_def)

text \<open>
  C8. For every question and \<open>top_k\<close>, \<open>retrieve_context\<close> returns a context and
  never an exception; on an empty store it returns the empty sequence; and an
  exception of the search backend is turned into the empty sequence.
\<close>

theorem retrieve_context_never_raises:
  "(\<exists>context. retrieve_context bk coll query top_k = Inr context)
   \<and> retrieve_context bk [] query top_k = Inr []
   \<and> (\<forall>e. collection_query bk coll query top_k = Inl e \<longrightarrow>
         retrieve_context bk coll query top_k = Inr [])"
  using retrieve_context_total retrieve_context_empty retrieve_context_backend_error by blast

theorem retrieve_context_never_raises_witness:
  "collection_query unreachable_backend
     [(''basic_select'', \<lparr>doc_content = ''SELECT 1'', doc_metadata = []\<rparr>)] ''all users'' 3
     = Inl (Raised ''ConnectionError'' ''backend unreachable'')
   \<and> retrieve_context unreachable_backend
     [(''basic_select'', \<lparr>doc_content = ''SELECT 1'', doc_metadata = []\<rparr>)] ''all users'' 3
     = Inr []"
proof -
  have h: "collection_query unreachable_backend
     [(''basic_select'', \<lparr>doc_content = ''SELECT 1'', doc_metadata = []\<rparr>)] ''all users'' 3
     = Inl (Raised ''ConnectionError'' ''backend unreachable'')"
    by (simp add: collection_query_def unreachable_backend_def)
  from retrieve_context_never_raises
    [of unreachable_backend
        "[(''basic_select'', \<lparr>doc_content = ''SELECT 1'', doc_metadata = []\<rparr>)]"
        "''all users''" 3]
  have "\<forall>e. collection_query unreachable_backend
     [(''basic_select'', \<lparr>doc_content = ''SELECT 1'', doc_metadata = []\<rparr>)] ''all users'' 3
     = Inl e \<longrightarrow> retrieve_context unreachable_backend
     [(''basic_select'', \<lparr>doc_content = ''SELECT 1'', doc_metadata = []\<rparr>)] ''all users'' 3
     = Inr []"
    by blast
  with h show ?thesis by blast
qed

section \<open>The orchestrator\<close>





text \<open>
  C2, as the code has it. On every path \<open>generate_sql\<close> returns a statement that is
  non-empty and ends with \<open>;\<close> once trailing whitespace is ignored. It contains no
  fence on the model-generated path; the placeholder and the fallback echo the question,
  so there it contains no fence whenever the question contains none. Whenever the
  endpoint answers with status \<open>success\<close>, its \<open>sql\<close> field is that statement.
\<close>

theorem generate_sql_terminated:
  "\<exists>s. fst (generate_sql the_llm bk coll question db_uri) = Inr s \<and> terminated s
       \<and> (\<not> contains fence question \<longrightarrow> \<not> contains fence s)
       \<and> (the_llm \<noteq> None \<and> fst (generate_sql_body the_llm bk coll question) = Inr s \<longrightarrow>
            \<not> contains fence s)
       \<and> (response_status (generate_sql_endpoint the_llm bk coll question db_uri save_fault)
              = ''success'' \<longrightarrow>
            response_sql (generate_sql_endpoint the_llm bk coll question db_uri save_fault) = s)"
proof -
  obtain s where s: "fst (generate_sql the_llm bk coll question db_uri) = Inr s" "terminated s"
      "\<not> contains fence question \<longrightarrow> \<not> contains fence s"
      "the_llm \<noteq> None \<and> fst (generate_sql_body the_llm bk coll question) = Inr s \<longrightarrow>
            \<not> contains fence s"
    using generate_sql_result [of the_llm bk coll question db_uri] by blast
  have "response_status (generate_sql_endpoint the_llm bk coll question db_uri save_fault)
              = ''success'' \<longrightarrow>
            response_sql (generate_sql_endpoint the_llm bk coll question db_uri save_fault) = s"
    using endpoint_success [of the_llm bk coll question db_uri save_fault] s(1) by auto
  with s show ?thesis by blast
qed

lemma fenced_llm_body:
  "fst (generate_sql_body (Some fenced_llm) sound_backend [] ''all users'') = Inr ''SELECT 1;''"
proof -
  obtain ctx where "generate_sql_body (Some fenced_llm) sound_backend [] ''all users'' =
       (bind_exn (fenced_llm (build_rag_prompt ''all users'' ctx)) clean_content,
        [build_rag_prompt ''all users'' ctx])"
    using generate_sql_body_Some by blast
  then show ?thesis
    by (simp only: fenced_llm_def bind_exn_def sum.case clean_content_def
        response_content.case clean_fenced_select fst_conv)
qed

theorem generate_sql_terminated_witness:
  "\<not> contains fence ''all users''
   \<and> fst (generate_sql_body (Some fenced_llm) sound_backend [] ''all users'') = Inr ''SELECT 1;''
   \<and> response_status (generate_sql_endpoint (Some fenced_llm) sound_backend [] ''all users''
        ''db'' None) = ''success''
   \<and> fst (generate_sql (Some fenced_llm) sound_backend [] ''all users'' ''db'') = Inr ''SELECT 1;''
   \<and> terminated ''SELECT 1;'' \<and> \<not> contains fence ''SELECT 1;''
   \<and> response_sql (generate_sql_endpoint (Some fenced_llm) sound_backend [] ''all users''
        ''db'' None) = ''SELECT 1;''"
proof -
  have h1: "\<not> contains fence ''all users''" by (simp add: fence_def)
  have g: "fst (generate_sql (Some fenced_llm) sound_backend [] ''all users'' ''db'')
      = Inr ''SELECT 1;''"
    by (simp add: generate_sql_outcome fenced_llm_body try_except_def)
  have h3: "response_status (generate_sql_endpoint (Some fenced_llm) sound_backend []
      ''all users'' ''db'' None) = ''success''"
    by (simp add: generate_sql_endpoint_def g bind_exn_def)
  from generate_sql_terminated
    [of "Some fenced_llm" sound_backend "[]" "''all users''" "''db''" None]
  obtain s where s: "fst (generate_sql (Some fenced_llm) sound_backend [] ''all users'' ''db'')
        = Inr s" "terminated s" "\<not> contains fence ''all users'' \<longrightarrow> \<not> contains fence s"
      "response_status (generate_sql_endpoint (Some fenced_llm) sound_backend []
         ''all users'' ''db'' None) = ''success'' \<longrightarrow>
       response_sql (generate_sql_endpoint (Some fenced_llm) sound_backend []
         ''all users'' ''db'' None) = s"
    by blast
  from s(1) g have e: "s = ''SELECT 1;''" by simp
  from s(2) e have t: "terminated ''SELECT 1;''" by simp
  from s(3) h1 e have f: "\<not> contains fence ''SELECT 1;''" by simp
  from s(4) h3 e have r: "response_sql (generate_sql_endpoint (Some fenced_llm) sound_backend []
      ''all users'' ''db'' None) = ''SELECT 1;''" by simp
  show ?thesis by (intro conjI h1 fenced_llm_body h3 g t f r)
qed

text \<open>
  C2 as stated fails: with no model configured and the question made of a fence, the
  returned statement contains the fence.
\<close>

theorem generate_sql_fence_counterexample:
  "fst (generate_sql None sound_backend [] fence ''db'') = Inr (no_api_key_sql fence)
   \<and> contains fence (no_api_key_sql fence)"
proof -
  have "contains fence fence" by (simp add: fence_def)
  then have "contains fence (no_api_key_sql fence)" by (simp only: no_api_key_sql_fence)
  then show ?thesis
    by (simp add: generate_sql_outcome generate_sql_body_None try_except_def)
qed



section \<open>Feedback: the store after recording\<close>

lemma collection_get_nonempty:
  "collection_get bk coll i = Inr found \<Longrightarrow> found \<noteq> [] \<longleftrightarrow> i \<in> fst ` set coll"
  by (force simp: collection_get_def filter_empty_conv split: option.splits)

lemma collection_add_single:
  "collection_add bk [(i, d)] coll =
     (case add_fault bk i d of
        Some e \<Rightarrow> Inl e
      | None \<Rightarrow> Inr (if i \<in> fst ` set coll then coll else coll @ [(i, d)]))"
  by (simp add: collection_add_def split: option.splits)

lemma add_successful_query_present:
  assumes "query_id_of hash q s \<in> fst ` set coll"
  shows "add_successful_query bk hash q s coll = coll"
proof (cases "collection_get bk coll (query_id_of hash q s)")
  case (Inl e)
  with assms show ?thesis
    by (simp add: add_successful_query_def Let_def collection_add_single split: option.splits)
next
  case (Inr found)
  with assms have "found \<noteq> []" using collection_get_nonempty by blast
  with Inr show ?thesis by (simp add: add_successful_query_def Let_def)
qed

lemma add_successful_query_cases:
  "add_successful_query bk hash q s coll = coll
   \<or> (query_id_of hash q s \<notin> fst ` set coll
      \<and> add_successful_query bk hash q s coll =
          coll @ [(query_id_of hash q s, learned_document q s)])"
proof (cases "query_id_of hash q s \<in> fst ` set coll")
  case True
  then show ?thesis by (simp add: add_successful_query_present)
next
  case False
  have "collection_get bk coll (query_id_of hash q s) = Inr [] \<or>
        (\<exists>e. collection_get bk coll (query_id_of hash q s) = Inl e)"
    using False collection_get_nonempty [of bk coll "query_id_of hash q s"]
    by (cases "collection_get bk coll (query_id_of hash q s)") auto
  then show ?thesis
    using False
    by (auto simp: add_successful_query_def Let_def collection_add_single split: option.splits)
qed

lemma add_successful_query_idem:
  "add_successful_query bk hash q s (add_successful_query bk hash q s coll) =
   add_successful_query bk hash q s coll"
  using add_successful_query_cases [of bk hash q s coll]
proof
  assume "add_successful_query bk hash q s coll = coll"
  then show ?thesis by simp
next
  assume a: "query_id_of hash q s \<notin> fst ` set coll
      \<and> add_successful_query bk hash q s coll =
          coll @ [(query_id_of hash q s, learned_document q s)]"
  then have "query_id_of hash q s \<in> fst ` set (add_successful_query bk hash q s coll)"
    by simp
  then show ?thesis by (rule add_successful_query_present)
qed

lemma add_successful_query_distinct:
  "distinct (map fst coll) \<Longrightarrow> distinct (map fst (add_successful_query bk hash q s coll))"
  using add_successful_query_cases [of bk hash q s coll] by auto

lemma filter_eq_distinct: "distinct xs \<Longrightarrow> length (filter (\<lambda>j. j = i) xs) \<le> 1"
  by (induction xs) (auto simp: filter_empty_conv)

lemma count_id_distinct: "distinct (map fst coll) \<Longrightarrow> count_id coll i \<le> 1"
  unfolding count_id_def by (rule filter_eq_distinct)

text \<open>
  C9. Recording the same successful pair twice leaves the store as after the first
  recording, because the identifier is a function of the pair and an id already present
  skips the insert; a store with unique ids then holds at most one document under the
  identifier of the pair. Recording with \<open>success = False\<close> changes nothing.
\<close>

theorem learn_from_query_deduplicated:
  "learn_from_query bk hash question sql_text True
     (learn_from_query bk hash question sql_text True coll)
     = learn_from_query bk hash question sql_text True coll
   \<and> (distinct (map fst coll) \<longrightarrow>
        count_id (learn_from_query bk hash question sql_text True
                    (learn_from_query bk hash question sql_text True coll))
          (query_id_of hash question sql_text) \<le> 1)
   \<and> learn_from_query bk hash question sql_text False coll = coll"
  using add_successful_query_idem [of bk hash question sql_text coll]
    add_successful_query_distinct [of coll bk hash question sql_text]
    count_id_distinct [of "add_successful_query bk hash question sql_text coll"
      "query_id_of hash question sql_text"]
  by (simp add: learn_from_query_def)

lemma learned_once:
  "learn_from_query sound_backend (\<lambda>text. 42) ''all users'' ''SELECT 1;'' True [] =
     [(''learned_42'', learned_document ''all users'' ''SELECT 1;'')]"
  by code_simp

theorem learn_from_query_deduplicated_witness:
  "distinct (map fst ([] :: collection))
   \<and> learn_from_query sound_backend (\<lambda>text. 42) ''all users'' ''SELECT 1;'' True
       (learn_from_query sound_backend (\<lambda>text. 42) ''all users'' ''SELECT 1;'' True [])
       = [(''learned_42'', learned_document ''all users'' ''SELECT 1;'')]
   \<and> count_id (learn_from_query sound_backend (\<lambda>text. 42) ''all users'' ''SELECT 1;'' True
       (learn_from_query sound_backend (\<lambda>text. 42) ''all users'' ''SELECT 1;'' True []))
       (query_id_of (\<lambda>text. 42) ''all users'' ''SELECT 1;'') \<le> 1"
proof -
  have h: "distinct (map fst ([] :: collection))" by simp
  note t = learn_from_query_deduplicated
    [of sound_backend "\<lambda>text. 42" "''all users''" "''SELECT 1;''" "[]"]
  from t have "learn_from_query sound_backend (\<lambda>text. 42) ''all users'' ''SELECT 1;'' True
       (learn_from_query sound_backend (\<lambda>text. 42) ''all users'' ''SELECT 1;'' True [])
     = learn_from_query sound_backend (\<lambda>text. 42) ''all users'' ''SELECT 1;'' True []"
    by blast
  then have a: "learn_from_query sound_backend (\<lambda>text. 42) ''all users'' ''SELECT 1;'' True
       (learn_from_query sound_backend (\<lambda>text. 42) ''all users'' ''SELECT 1;'' True [])
       = [(''learned_42'', learned_document ''all users'' ''SELECT 1;'')]"
    by (simp only: learned_once)
  from t h have b: "count_id (learn_from_query sound_backend (\<lambda>text. 42) ''all users''
       ''SELECT 1;'' True
       (learn_from_query sound_backend (\<lambda>text. 42) ''all users'' ''SELECT 1;'' True []))
       (query_id_of (\<lambda>text. 42) ''all users'' ''SELECT 1;'') \<le> 1"
    by blast
  show ?thesis by (intro conjI h a b)
qed

lemma query_id_of_concat: "q1 @ s1 = q2 @ s2 \<Longrightarrow> query_id_of hash q1 s1 = query_id_of hash q2 s2"
  by (simp add: query_id_of_def)

lemma second_pair_lost:
  assumes "q1 @ s1 = q2 @ s2"
    and "query_id_of hash q1 s1 \<in> fst ` set (add_successful_query bk hash q1 s1 coll)"
  shows "add_successful_query bk hash q2 s2 (add_successful_query bk hash q1 s1 coll) =
         add_successful_query bk hash q1 s1 coll"
  using assms query_id_of_concat [of q1 s1 q2 s2 hash]
  by (intro add_successful_query_present) simp

lemma first_pair_stored:
  "add_successful_query sound_backend hash ''ab'' ''c'' [] =
     [(query_id_of hash ''ab'' ''c'', learned_document ''ab'' ''c'')]"
  by (simp add: add_successful_query_def collection_get_def collection_add_single
      sound_backend_def Let_def)

text \<open>
  C10. The identifier is computed from the concatenation \<open>question + sql\<close>, so the
  distinct pairs \<open>(ab, c)\<close> and \<open>(a, bc)\<close>, whose learned documents differ, get the same
  identifier under every hash; after the first pair is recorded in an empty store, recording
  the second inserts nothing. In general, for pairs with equal concatenation, once the
  identifier of the first is in the store, recording the second leaves the store unchanged.
\<close>

theorem query_id_conflates_pairs:
  "(''ab'', ''c'') \<noteq> (''a'', ''bc'')
   \<and> learned_document ''ab'' ''c'' \<noteq> learned_document ''a'' ''bc''
   \<and> query_id_of hash ''ab'' ''c'' = query_id_of hash ''a'' ''bc''
   \<and> add_successful_query sound_backend hash ''ab'' ''c'' [] =
       [(query_id_of hash ''ab'' ''c'', learned_document ''ab'' ''c'')]
   \<and> add_successful_query sound_backend hash ''a'' ''bc''
       (add_successful_query sound_backend hash ''ab'' ''c'' []) =
       [(query_id_of hash ''ab'' ''c'', learned_document ''ab'' ''c'')]
   \<and> (q1 @ s1 = q2 @ s2
       \<and> query_id_of hash q1 s1 \<in> fst ` set (add_successful_query bk hash q1 s1 coll) \<longrightarrow>
         query_id_of hash q1 s1 = query_id_of hash q2 s2
         \<and> add_successful_query bk hash q2 s2 (add_successful_query bk hash q1 s1 coll) =
             add_successful_query bk hash q1 s1 coll)"
proof -
  have a: "(''ab'', ''c'') \<noteq> (''a'', ''bc'')" by simp
  have b: "learned_document ''ab'' ''c'' \<noteq> learned_document ''a'' ''bc''"
    by (simp add: learned_document_def quote_def)
  have c: "query_id_of hash ''ab'' ''c'' = query_id_of hash ''a'' ''bc''"
    by (rule query_id_of_concat) simp
  have i: "query_id_of hash ''ab'' ''c''
      \<in> fst ` set (add_successful_query sound_backend hash ''ab'' ''c'' [])"
    by (simp only: first_pair_stored) simp
  have "''ab'' @ ''c'' = ''a'' @ ''bc''" by simp
  then have "add_successful_query sound_backend hash ''a'' ''bc''
       (add_successful_query sound_backend hash ''ab'' ''c'' []) =
       add_successful_query sound_backend hash ''ab'' ''c'' []"
    using i by (rule second_pair_lost)
  then have e: "add_successful_query sound_backend hash ''a'' ''bc''
       (add_successful_query sound_backend hash ''ab'' ''c'' []) =
       [(query_id_of hash ''ab'' ''c'', learned_document ''ab'' ''c'')]"
    by (simp only: first_pair_stored)
  have f: "q1 @ s1 = q2 @ s2
       \<and> query_id_of hash q1 s1 \<in> fst ` set (add_successful_query bk hash q1 s1 coll) \<longrightarrow>
         query_id_of hash q1 s1 = query_id_of hash q2 s2
         \<and> add_successful_query bk hash q2 s2 (add_successful_query bk hash q1 s1 coll) =
             add_successful_query bk hash q1 s1 coll"
    using query_id_of_concat [of q1 s1 q2 s2 hash] second_pair_lost [of q1 s1 q2 s2 hash bk coll]
    by blast
  show ?thesis by (intro conjI a b c first_pair_stored e f)
qed

theorem query_id_conflates_pairs_witness:
  "''ab'' @ ''c'' = ''a'' @ ''bc''
   \<and> query_id_of (\<lambda>text. 42) ''ab'' ''c''
       \<in> fst ` set (add_successful_query sound_backend (\<lambda>text. 42) ''ab'' ''c'' [])
   \<and> query_id_of (\<lambda>text. 42) ''ab'' ''c'' = query_id_of (\<lambda>text. 42) ''a'' ''bc''
   \<and> add_successful_query sound_backend (\<lambda>text. 42) ''a'' ''bc''
       (add_successful_query sound_backend (\<lambda>text. 42) ''ab'' ''c'' []) =
       add_successful_query sound_backend (\<lambda>text. 42) ''ab'' ''c'' []"
proof -
  have h1: "''ab'' @ ''c'' = ''a'' @ ''bc''" by simp
  have h2: "query_id_of (\<lambda>text. 42) ''ab'' ''c''
       \<in> fst ` set (add_successful_query sound_backend (\<lambda>text. 42) ''ab'' ''c'' [])"
    by (simp only: first_pair_stored) simp
  note t = query_id_conflates_pairs
    [of "\<lambda>text. 42" "''ab''" "''c''" "''a''" "''bc''" sound_backend "[]"]
  from t have imp: "''ab'' @ ''c'' = ''a'' @ ''bc''
       \<and> query_id_of (\<lambda>text. 42) ''ab'' ''c''
           \<in> fst ` set (add_successful_query sound_backend (\<lambda>text. 42) ''ab'' ''c'' []) \<longrightarrow>
         query_id_of (\<lambda>text. 42) ''ab'' ''c'' = query_id_of (\<lambda>text. 42) ''a'' ''bc''
         \<and> add_successful_query sound_backend (\<lambda>text. 42) ''a'' ''bc''
             (add_successful_query sound_backend (\<lambda>text. 42) ''ab'' ''c'' []) =
             add_successful_query sound_backend (\<lambda>text. 42) ''ab'' ''c'' []"
    by (elim conjE)
  from imp h1 h2 have r: "query_id_of (\<lambda>text. 42) ''ab'' ''c'' = query_id_of (\<lambda>text. 42) ''a'' ''bc''
         \<and> add_successful_query sound_backend (\<lambda>text. 42) ''a'' ''bc''
             (add_successful_query sound_backend (\<lambda>text. 42) ''ab'' ''c'' []) =
             add_successful_query sound_backend (\<lambda>text. 42) ''ab'' ''c'' []"
    by (rule mp [OF _ conjI])
  show ?thesis by (intro conjI h1 h2 conjunct1 [OF r] conjunct2 [OF r])
qed

section \<open>Curator: population\<close>

lemma populate_skip:
  "0 < collection_count coll \<Longrightarrow> populate_knowledge_base bk db coll = coll"
  by (simp add: populate_knowledge_base_def)

lemma populate_idem:
  "populate_knowledge_base bk db (populate_knowledge_base bk db coll) =
   populate_knowledge_base bk db coll"
proof (cases "0 < collection_count (populate_knowledge_base bk db coll)")
  case True
  then show ?thesis by (rule populate_skip)
next
  case False
  then have e: "populate_knowledge_base bk db coll = []" by (simp add: collection_count_def)
  have "coll = []"
  proof (rule ccontr)
    assume "coll \<noteq> []"
    then have "0 < collection_count coll" by (simp add: collection_count_def)
    then have "populate_knowledge_base bk db coll = coll" by (rule populate_skip)
    with e \<open>coll \<noteq> []\<close> show False by simp
  qed
  with e show ?thesis by simp
qed

lemma first_fault_None: "\<forall>i d. add_fault bk i d = None \<Longrightarrow> first_fault bk items = None"
  by (induction items) auto

lemma collection_add_extends:
  "collection_add bk items coll = Inr coll' \<Longrightarrow> \<exists>new. coll' = coll @ new"
  by (auto simp: collection_add_def split: option.splits if_splits)

lemma add_individually_nonempty: "coll \<noteq> [] \<Longrightarrow> add_individually bk items coll \<noteq> []"
proof (induction items arbitrary: coll)
  case Nil
  then show ?case by simp
next
  case (Cons item items)
  show ?case
  proof (cases "collection_add bk [to_document item] coll")
    case (Inl e)
    with Cons show ?thesis by simp
  next
    case (Inr coll')
    then obtain new where "coll' = coll @ new" using collection_add_extends by blast
    with Cons.prems have "coll' \<noteq> []" by simp
    with Inr Cons.IH show ?thesis by simp
  qed
qed

lemma add_individually_first:
  assumes "\<forall>i d. add_fault bk i d = None" "items \<noteq> []"
  shows "add_individually bk items [] \<noteq> []"
proof -
  obtain item rest where i: "items = item # rest" using assms(2) by (cases items) auto
  obtain i d where d: "to_document item = (i, d)" by (cases "to_document item") auto
  have "collection_add bk [to_document item] [] = Inr [(i, d)]"
    using assms(1) d by (simp add: collection_add_single)
  then have "add_individually bk items [] = add_individually bk rest [(i, d)]"
    using i by simp
  then show ?thesis using add_individually_nonempty [of "[(i, d)]" bk rest] by simp
qed

lemma knowledge_items_nonempty: "knowledge_items db \<noteq> []"
  by (simp add: knowledge_items_def relationship_items_def)

lemma populate_empty_nonempty:
  assumes "\<forall>i d. add_fault bk i d = None"
  shows "populate_knowledge_base bk db [] \<noteq> []"
proof (cases "distinct (map fst (map to_document (knowledge_items db)))")
  case True
  then have "collection_add bk (map to_document (knowledge_items db)) [] =
      Inr (map to_document (knowledge_items db))"
    using first_fault_None [OF assms] by (simp add: collection_add_def)
  then show ?thesis
    using knowledge_items_nonempty [of db]
    by (simp add: populate_knowledge_base_def collection_count_def Let_def)
next
  case False
  then have "collection_add bk (map to_document (knowledge_items db)) [] = Inl DuplicateIDError"
    using first_fault_None [OF assms] by (simp add: collection_add_def)
  then show ?thesis
    using add_individually_first [OF assms knowledge_items_nonempty, of db]
    by (simp add: populate_knowledge_base_def collection_count_def Let_def)
qed

lemma populate_twice_any:
  assumes "\<forall>i d. add_fault bk i d = None"
  shows "populate_knowledge_base bk db' (populate_knowledge_base bk db coll) =
         populate_knowledge_base bk db coll"
proof -
  have "populate_knowledge_base bk db coll \<noteq> []"
  proof (cases "coll = []")
    case True
    then show ?thesis using populate_empty_nonempty [OF assms] by simp
  next
    case False
    then have "0 < collection_count coll" by (simp add: collection_count_def)
    then show ?thesis using populate_skip [of coll bk db] False by simp
  qed
  then have "0 < collection_count (populate_knowledge_base bk db coll)"
    by (simp add: collection_count_def)
  then show ?thesis by (rule populate_skip)
qed

lemma populate_sample_count:
  "collection_count (populate_knowledge_base sound_backend sample_database []) = 18"
  by code_simp

text \<open>
  C7. From any store, populating twice leaves the same number of documents as
  populating once. Population returns the store unchanged, inserting nothing, whenever
  the store holds a document; and when the index rejects no document, a first
  population always leaves the store non-empty, so a second one is skipped even if the
  database has changed in between.
\<close>

theorem populate_knowledge_base_idempotent:
  "collection_count (populate_knowledge_base bk db (populate_knowledge_base bk db coll))
     = collection_count (populate_knowledge_base bk db coll)
   \<and> (0 < collection_count coll \<longrightarrow> populate_knowledge_base bk db coll = coll)
   \<and> ((\<forall>i d. add_fault bk i d = None) \<longrightarrow>
        collection_count (populate_knowledge_base bk db' (populate_knowledge_base bk db coll))
          = collection_count (populate_knowledge_base bk db coll))"
  using populate_idem [of bk db coll] populate_skip [of coll bk db]
    populate_twice_any [of bk db' db coll]
  by simp

theorem populate_knowledge_base_idempotent_witness:
  "(\<forall>i d. add_fault sound_backend i d = None)
   \<and> 0 < collection_count (populate_knowledge_base sound_backend sample_database [])
   \<and> collection_count (populate_knowledge_base sound_backend sample_database
        (populate_knowledge_base sound_backend sample_database [])) = 18
   \<and> populate_knowledge_base sound_backend sample_database
        (populate_knowledge_base sound_backend sample_database [])
      = populate_knowledge_base sound_backend sample_database []"
proof -
  have h1: "\<forall>i d. add_fault sound_backend i d = None" by (simp add: sound_backend_def)
  have h2: "0 < collection_count (populate_knowledge_base sound_backend sample_database [])"
    by (simp add: populate_sample_count)
  note t = populate_knowledge_base_idempotent
    [of sound_backend sample_database "[]" sample_database]
  note u = populate_knowledge_base_idempotent
    [of sound_backend sample_database
        "populate_knowledge_base sound_backend sample_database []" sample_database]
  from t have "collection_count (populate_knowledge_base sound_backend sample_database
        (populate_knowledge_base sound_backend sample_database []))
      = collection_count (populate_knowledge_base sound_backend sample_database [])"
    by (rule conjunct1)
  then have a: "collection_count (populate_knowledge_base sound_backend sample_database
        (populate_knowledge_base sound_backend sample_database [])) = 18"
    by (simp only: populate_sample_count)
  from u h2 have b: "populate_knowledge_base sound_backend sample_database
        (populate_knowledge_base sound_backend sample_database [])
      = populate_knowledge_base sound_backend sample_database []"
    by blast
  show ?thesis by (intro conjI h1 h2 a b)
qed

section \<open>The first occurrence of a separator\<close>

lemma contains_singleton: "contains [c] s \<longleftrightarrow> c \<in> set s"
  by (induction s) auto

lemma not_prefix_before:
  assumes "sep \<noteq> []" "\<not> contains sep ((x # a) @ butlast sep)"
  shows "\<not> prefix sep ((x # a) @ sep @ b)"
proof
  assume p: "prefix sep ((x # a) @ sep @ b)"
  have "sep @ b = butlast sep @ (last sep # b)"
    using append_butlast_last_id [OF assms(1)] by (metis append.assoc append_Cons append_Nil)
  then have "(x # a) @ sep @ b = ((x # a) @ butlast sep) @ (last sep # b)" by simp
  with p have "prefix sep (((x # a) @ butlast sep) @ (last sep # b))" by metis
  moreover have "length sep \<le> length ((x # a) @ butlast sep)" by simp
  ultimately have "prefix sep ((x # a) @ butlast sep)"
    by (metis prefix_length_prefix prefix_order.refl prefixI append.assoc)
  then have "contains sep ((x # a) @ butlast sep)" by simp
  with assms(2) show False by simp
qed

lemma split_str_first:
  "sep \<noteq> [] \<Longrightarrow> \<not> contains sep (a @ butlast sep) \<Longrightarrow>
   split_str sep (a @ sep @ b) = a # split_str sep b"
proof (induction a)
  case Nil
  then show ?case by (simp add: split_str_prefix)
next
  case (Cons x a)
  have np: "\<not> prefix sep (x # (a @ sep @ b))"
    using not_prefix_before [OF Cons.prems] by simp
  have "\<not> contains sep (a @ butlast sep)" using Cons.prems(2) by simp
  then have "split_str sep (a @ sep @ b) = a # split_str sep b"
    using Cons.IH Cons.prems(1) by simp
  then show ?case using np Cons.prems(1) by (simp add: split_str_Cons)
qed

lemma split_str_char:
  "c \<notin> set a \<Longrightarrow> split_str [c] (a @ c # b) = a # split_str [c] b"
  using split_str_first [of "[c]" a b] by (simp add: contains_singleton)

lemma split_join_char:
  "ls \<noteq> [] \<Longrightarrow> \<forall>l \<in> set ls. c \<notin> set l \<Longrightarrow> split_str [c] (join [c] ls) = ls"
proof (induction "[c]" ls rule: join.induct)
  case 1
  then show ?case by simp
next
  case (2 x)
  then show ?case by (simp add: split_str_no_sep contains_singleton)
next
  case (3 x y ys)
  then show ?case by (simp add: split_str_char)
qed

lemma split_str_lines_free: "l \<in> set (split_str [c] s) \<Longrightarrow> c \<notin> set l"
  using split_str_parts_free [of "[c]" l s] by (simp add: contains_singleton)

section \<open>Stripped strings\<close>

lemma lstrip_hd: "lstrip s \<noteq> [] \<Longrightarrow> \<not> isspace (hd (lstrip s))"
  unfolding lstrip_def by (rule hd_dropWhile)

lemma rstrip_last: "rstrip s \<noteq> [] \<Longrightarrow> \<not> isspace (last (rstrip s))"
  unfolding rstrip_def using hd_dropWhile [of isspace "rev s"] by (simp add: last_rev)

lemma rstrip_hd: "rstrip s \<noteq> [] \<Longrightarrow> hd (rstrip s) = hd s"
  by (metis prefix_def hd_append2 prefix_rstrip)

lemma strip_ends:
  "strip s \<noteq> [] \<Longrightarrow> \<not> isspace (hd (strip s)) \<and> \<not> isspace (last (strip s))"
proof -
  assume ne: "strip s \<noteq> []"
  then have "lstrip s \<noteq> []" by (auto simp: strip_def rstrip_def)
  then have "\<not> isspace (hd (lstrip s))" by (rule lstrip_hd)
  moreover have "hd (strip s) = hd (lstrip s)" using ne rstrip_hd by (simp add: strip_def)
  moreover have "\<not> isspace (last (strip s))" using ne rstrip_last by (simp add: strip_def)
  ultimately show ?thesis by simp
qed

lemma lstrip_id: "s \<noteq> [] \<Longrightarrow> \<not> isspace (hd s) \<Longrightarrow> lstrip s = s"
  by (cases s) (simp_all add: lstrip_def)

lemma rstrip_id: "s \<noteq> [] \<Longrightarrow> \<not> isspace (last s) \<Longrightarrow> rstrip s = s"
  using rstrip_snoc [of "last s" "butlast s"] by simp

lemma rstrip_Nil: "rstrip [] = []"
  by (simp add: rstrip_def)

lemma strip_id: "s \<noteq> [] \<Longrightarrow> \<not> isspace (hd s) \<Longrightarrow> \<not> isspace (last s) \<Longrightarrow> strip s = s"
  by (simp add: strip_def lstrip_id rstrip_id)

lemma strip_Nil: "strip [] = []"
  by (simp add: strip_def lstrip_def rstrip_def)

lemma strip_idem: "strip (strip s) = strip s"
proof (cases "strip s = []")
  case True
  then show ?thesis using strip_Nil by simp
next
  case False
  then show ?thesis using strip_ends [of s] by (simp add: strip_id)
qed

lemma clean_line_ends: "clean_line l \<Longrightarrow> \<not> isspace (hd l) \<and> \<not> isspace (last l)"
  using strip_ends [of l] by (simp add: clean_line_def)

lemma join_not_Nil: "ls \<noteq> [] \<Longrightarrow> hd ls \<noteq> [] \<Longrightarrow> join sep ls \<noteq> []"
  by (induction sep ls rule: join.induct) auto

lemma hd_join: "ls \<noteq> [] \<Longrightarrow> hd ls \<noteq> [] \<Longrightarrow> hd (join sep ls) = hd (hd ls)"
  by (induction sep ls rule: join.induct) auto

lemma last_join_aux:
  "ls \<noteq> [] \<Longrightarrow> last ls \<noteq> [] \<Longrightarrow>
   join sep ls \<noteq> [] \<and> last (join sep ls) = last (last ls)"
  by (induction sep ls rule: join.induct) auto

lemma last_join:
  "ls \<noteq> [] \<Longrightarrow> last ls \<noteq> [] \<Longrightarrow> last (join sep ls) = last (last ls)"
  by (simp add: last_join_aux)

section \<open>Cleaned statements are fixed points of cleaning\<close>

lemma clean_fixed:
  assumes "ls \<noteq> []" "\<forall>l \<in> set ls. clean_line l" "suffix '';'' (join newline ls)"
  shows "clean_sql_response (join newline ls) = Inr (join newline ls)"
proof -
  let ?y = "join newline ls"
  have h: "clean_line (hd ls)" and t: "clean_line (last ls)" using assms(1,2) by simp_all
  then have hne: "hd ls \<noteq> []" and tne: "last ls \<noteq> []" by (simp_all add: clean_line_def)
  have ne: "?y \<noteq> []" using assms(1) hne by (rule join_not_Nil)
  have "\<not> isspace (hd ?y)"
    using hd_join [OF assms(1) hne, of newline] clean_line_ends [OF h] by simp
  moreover have nl: "\<not> isspace (last ?y)"
    using last_join [OF assms(1) tne, of newline] clean_line_ends [OF t] by simp
  ultimately have st: "strip ?y = ?y" using ne by (simp add: strip_id)
  have nf: "\<not> contains fence ?y"
    using assms(2) by (simp add: contains_fence_lines clean_line_def)
  then have "\<not> contains fence_sql ?y" using contains_fence_sql_fence by blast
  with nf have rm: "remove_markdown ?y = Inr ?y" by (simp add: remove_markdown_def)
  have "split_str newline ?y = ls"
    unfolding newline_def using assms(1,2)
    by (intro split_join_char) (simp_all add: clean_line_def)
  moreover have "map strip ls = ls" using assms(2) by (simp add: map_idI clean_line_def)
  moreover have "filter keep_line ls = ls" using assms(2) by (simp add: clean_line_def)
  ultimately have sl: "sql_lines ?y = ls" by (simp add: sql_lines_def)
  have "rstrip ?y = ?y" using ne nl by (rule rstrip_id)
  then have "ensure_semicolon ?y = ?y"
    using assms(3) by (simp add: ensure_semicolon_def endswith_def)
  with st rm sl show ?thesis by (simp add: clean_sql_response_def bind_exn_def)
qed

lemma sql_lines_clean:
  assumes "\<not> contains fence s"
  shows "\<forall>l \<in> set (sql_lines s). clean_line l"
proof
  fix l assume "l \<in> set (sql_lines s)"
  then obtain x where x: "x \<in> set (split_str newline s)" "l = strip x" "keep_line l"
    by (auto simp: sql_lines_def)
  have "\<not> contains fence (join newline (split_str newline s))"
    using assms by (simp add: join_split_str fence_not_Nil)
  then have "\<not> contains fence x" using x(1) by (simp add: contains_fence_lines)
  then have f: "\<not> contains fence l" using x(2) contains_strip by blast
  have "CHR 0x0A \<notin> set x" using x(1) split_str_lines_free unfolding newline_def by blast
  moreover have "set l \<subseteq> set x" using x(2) sublist_strip set_mono_sublist by blast
  ultimately have n: "CHR 0x0A \<notin> set l" by blast
  have "l \<noteq> []" using x(3) by (simp add: keep_line_def)
  moreover have "strip l = l" using x(2) by (simp add: strip_idem)
  ultimately show "clean_line l" using x(3) f n by (simp add: clean_line_def)
qed

lemma join_snoc_last:
  "ls \<noteq> [] \<Longrightarrow> join sep (butlast ls @ [last ls @ t]) = join sep ls @ t"
  by (induction sep ls rule: join.induct) auto

lemma keep_line_semicolon: "keep_line l \<Longrightarrow> keep_line (l @ '';'')"
  by (auto simp: keep_line_def startswith_def prefix_append prefix_Cons append_eq_Cons_conv)

lemma clean_line_semicolon:
  assumes "clean_line l"
  shows "clean_line (l @ '';'')"
proof -
  have ne: "l \<noteq> []" using assms by (simp add: clean_line_def)
  have "\<not> isspace (hd (l @ '';''))" using ne clean_line_ends [OF assms] by simp
  then have "strip (l @ '';'') = l @ '';''"
    using not_isspace_semicolon by (simp add: strip_id)
  moreover have "\<not> contains fence (l @ '';'')"
    using assms
    by (subst contains_append_right_free) (simp_all add: fence_not_Nil fence_chars clean_line_def)
  moreover have "keep_line (l @ '';'')"
    using assms keep_line_semicolon by (simp add: clean_line_def)
  ultimately show ?thesis using assms by (simp add: clean_line_def)
qed

lemma clean_line_only_semicolon: "clean_line '';''"
  using not_isspace_semicolon
  by (simp add: clean_line_def strip_id keep_line_def startswith_def fence_def)

lemma join_lines_rstrip:
  assumes "\<forall>l \<in> set ls. clean_line l"
  shows "rstrip (join newline ls) = join newline ls"
proof (cases "ls = []")
  case True
  then show ?thesis by (simp add: rstrip_Nil)
next
  case False
  then have t: "clean_line (last ls)" using assms by simp
  then have tne: "last ls \<noteq> []" by (simp add: clean_line_def)
  have "join newline ls \<noteq> []" using False tne by (simp add: last_join_aux)
  moreover have "\<not> isspace (last (join newline ls))"
    using last_join [OF False tne, of newline] clean_line_ends [OF t] by simp
  ultimately show ?thesis by (rule rstrip_id)
qed

lemma ensure_semicolon_lines:
  assumes "\<forall>l \<in> set ls. clean_line l"
  shows "\<exists>ls'. ls' \<noteq> [] \<and> (\<forall>l \<in> set ls'. clean_line l) \<and> suffix '';'' (join newline ls')
           \<and> ensure_semicolon (join newline ls) = join newline ls'"
proof (cases "suffix '';'' (join newline ls)")
  case True
  then have "join newline ls \<noteq> []" by (auto simp: suffix_def)
  then have "ls \<noteq> []" by auto
  moreover have "ensure_semicolon (join newline ls) = join newline ls"
    using True join_lines_rstrip [OF assms] by (simp add: ensure_semicolon_def endswith_def)
  ultimately show ?thesis using assms True by blast
next
  case False
  then have out: "ensure_semicolon (join newline ls) = join newline ls @ '';''"
    using join_lines_rstrip [OF assms] by (simp add: ensure_semicolon_def endswith_def)
  show ?thesis
  proof (cases "ls = []")
    case True
    have "[ '';'' ] \<noteq> [] \<and> (\<forall>l \<in> set [ '';'' ]. clean_line l)
        \<and> suffix '';'' (join newline [ '';'' ])
        \<and> ensure_semicolon (join newline ls) = join newline [ '';'' ]"
      using out True clean_line_only_semicolon by simp
    then show ?thesis by blast
  next
    case ne: False
    let ?ls' = "butlast ls @ [last ls @ '';'']"
    have j: "join newline ?ls' = join newline ls @ '';''" using ne by (rule join_snoc_last)
    have "clean_line (last ls)" using ne assms by simp
    then have "clean_line (last ls @ '';'')" by (rule clean_line_semicolon)
    moreover have "\<forall>l \<in> set (butlast ls). clean_line l"
      using assms by (meson in_set_butlastD)
    ultimately have "\<forall>l \<in> set ?ls'. clean_line l" by auto
    moreover have "suffix '';'' (join newline ?ls')" using j by (simp add: suffix_def)
    moreover have "?ls' \<noteq> []" by simp
    ultimately show ?thesis using out j by metis
  qed
qed

lemma clean_sql_response_idem:
  assumes "clean_sql_response x = Inr y"
  shows "clean_sql_response y = Inr y"
proof -
  obtain s' where s': "remove_markdown (strip x) = Inr s'" "\<not> contains fence s'"
    using remove_markdown_result by blast
  with assms have y: "y = ensure_semicolon (join newline (sql_lines s'))"
    by (simp add: clean_sql_response_def bind_exn_def)
  have "\<forall>l \<in> set (sql_lines s'). clean_line l" using s'(2) by (rule sql_lines_clean)
  then obtain ls' where "ls' \<noteq> []" "\<forall>l \<in> set ls'. clean_line l"
      "suffix '';'' (join newline ls')" "y = join newline ls'"
    using ensure_semicolon_lines y by metis
  then show ?thesis using clean_fixed by simp
qed

text \<open>
  C6. For every input that ends with \<open>;\<close> once trailing whitespace is ignored,
  cleaning the cleaned input gives the cleaned input again.
\<close>

theorem clean_sql_response_idempotent:
  "endswith (rstrip x) '';'' \<Longrightarrow>
   bind_exn (clean_sql_response x) clean_sql_response = clean_sql_response x"
proof -
  obtain y where y: "clean_sql_response x = Inr y"
    using clean_sql_response_total by blast
  then have "clean_sql_response y = Inr y" by (rule clean_sql_response_idem)
  with y show ?thesis by (simp add: bind_exn_def)
qed

lemma clean_select_spaces:
  "clean_sql_response (''--note'' @ newline @ ''  SELECT 1;  '' @ newline) = Inr ''SELECT 1;''"
  by code_simp

theorem clean_sql_response_idempotent_witness:
  "endswith (rstrip (''--note'' @ newline @ ''  SELECT 1;  '' @ newline)) '';''
   \<and> clean_sql_response (''--note'' @ newline @ ''  SELECT 1;  '' @ newline) = Inr ''SELECT 1;''
   \<and> clean_sql_response ''SELECT 1;'' = Inr ''SELECT 1;''"
proof -
  have h: "endswith (rstrip (''--note'' @ newline @ ''  SELECT 1;  '' @ newline)) '';''"
    by code_simp
  from clean_sql_response_idempotent [OF h]
  have "bind_exn (Inr ''SELECT 1;'') clean_sql_response = Inr ''SELECT 1;''"
    by (simp only: clean_select_spaces)
  then have "clean_sql_response ''SELECT 1;'' = Inr ''SELECT 1;''"
    by (simp only: bind_exn_def sum.case)
  with h clean_select_spaces show ?thesis by (intro conjI)
qed

section \<open>Fenced model outputs\<close>


















end
